theory Spec2Isabelle
  imports Complex_Main "HOL-Library.Word"
begin

section \<open>Documents\<close>

text \<open>
  The values that \<^verbatim>\<open>reactor.py\<close> builds and hands to the store are Python objects:
  \<^verbatim>\<open>None\<close>, booleans, integers, floats, \<^verbatim>\<open>str\<close>, \<^verbatim>\<open>bytes\<close>, lists and dicts.
  A dict is an association list in insertion order; Python keeps its keys distinct
  (\<open>wf_doc\<close> below). A key is a \<^verbatim>\<open>str\<close> or something else (\<open>KInt\<close>), because
  \<^verbatim>\<open>fix_keys\<close> tests \<^verbatim>\<open>isinstance(k, str)\<close>. A float is given by the real
  number it denotes; what the runtime computes with floats is a parameter below. A text is a
  list of characters; the code below only compares them with \<^verbatim>\<open>$\<close>, \<^verbatim>\<open>.\<close> and \<^verbatim>\<open>-\<close>.
  Documents are trees: no object occurs at two places of one document.
\<close>

type_synonym byte = "8 word"

datatype pykey = KStr string | KInt int

datatype doc =
    VNone
  | VBool bool
  | VInt int
  | VFloat real
  | VStr string
  | VBytes "byte list"
  | VList "doc list"
  | VDict "(pykey \<times> doc) list"

type_synonym pydict = "(pykey \<times> doc) list"

fun is_container :: "doc \<Rightarrow> bool" where
  "is_container (VList xs) = True"
| "is_container (VDict kvs) = True"
| "is_container d = False"

fun wf_doc :: "doc \<Rightarrow> bool"
  and wf_list :: "doc list \<Rightarrow> bool"
  and wf_items :: "(pykey \<times> doc) list \<Rightarrow> bool" where
  "wf_doc (VList xs) = wf_list xs"
| "wf_doc (VDict kvs) = (distinct (map fst kvs) \<and> wf_items kvs)"
| "wf_doc d = True"
| "wf_list [] = True"
| "wf_list (v # vs) = (wf_doc v \<and> wf_list vs)"
| "wf_items [] = True"
| "wf_items (kv # kvs) = (wf_doc (snd kv) \<and> wf_items kvs)"

subsection \<open>Dict operations\<close>

text \<open>\<^verbatim>\<open>d.get(k)\<close>, \<^verbatim>\<open>k in d\<close>, \<^verbatim>\<open>d[k] = v\<close> (in place when the key is there, appended
  otherwise) and \<^verbatim>\<open>d.pop(k)\<close>, which raises KeyError (\<open>None\<close>) on a missing key.\<close>

definition dict_get :: "('k \<times> 'v) list \<Rightarrow> 'k \<Rightarrow> 'v option" where
  "dict_get d k = map_of d k"

definition dict_contains :: "('k \<times> 'v) list \<Rightarrow> 'k \<Rightarrow> bool" where
  "dict_contains d k = (map_of d k \<noteq> None)"

fun dict_set :: "'k \<Rightarrow> 'v \<Rightarrow> ('k \<times> 'v) list \<Rightarrow> ('k \<times> 'v) list" where
  "dict_set k v [] = [(k, v)]"
| "dict_set k v (kv # d) = (if fst kv = k then (k, v) # d else kv # dict_set k v d)"

definition dict_pop :: "'k \<Rightarrow> ('k \<times> 'v) list \<Rightarrow> ('v \<times> ('k \<times> 'v) list) option" where
  "dict_pop k d =
     (case map_of d k of
        None \<Rightarrow> None
      | Some v \<Rightarrow> Some (v, filter (\<lambda>kv. fst kv \<noteq> k) d))"

section \<open>DocumentSanitizer\<close>

subsection \<open>replace_none\<close>

text \<open>
  \<^verbatim>\<open>replace_none(data)\<close>: a list is walked by index, a dict by its items; a child that
  is \<^verbatim>\<open>None\<close> is overwritten with the string \<^verbatim>\<open>"None"\<close>, a child that is a list or a dict
  is visited; anything else, and a top-level value that is neither list nor dict, is
  returned as it is.
\<close>

fun replace_none :: "doc \<Rightarrow> doc"
  and replace_none_list :: "doc list \<Rightarrow> doc list"
  and replace_none_items :: "(pykey \<times> doc) list \<Rightarrow> (pykey \<times> doc) list" where
  "replace_none (VList xs) = VList (replace_none_list xs)"
| "replace_none (VDict kvs) = VDict (replace_none_items kvs)"
| "replace_none d = d"
| "replace_none_list [] = []"
| "replace_none_list (v # vs) =
     (if v = VNone then VStr ''None''
      else if is_container v then replace_none v
      else v) # replace_none_list vs"
| "replace_none_items [] = []"
| "replace_none_items (kv # kvs) =
     (fst kv,
      if snd kv = VNone then VStr ''None''
      else if is_container (snd kv) then replace_none (snd kv)
      else snd kv) # replace_none_items kvs"

subsection \<open>fix_keys\<close>

text \<open>\<^verbatim>\<open>s.replace(old, new)\<close> for a one-character \<^verbatim>\<open>old\<close>, and \<^verbatim>\<open>s.startswith(p)\<close>.\<close>

definition str_replace :: "char \<Rightarrow> string \<Rightarrow> string \<Rightarrow> string" where
  "str_replace old new s = concat (map (\<lambda>c. if c = old then new else [c]) s)"

definition startswith :: "string \<Rightarrow> string \<Rightarrow> bool" where
  "startswith s p = (take (length p) s = p)"

text \<open>The key that the dict loop of \<^verbatim>\<open>fix_keys\<close> computes for a textual key \<open>k\<close>: the three
  tests read \<open>k\<close>, the three replacements rewrite \<open>new_key\<close>.\<close>

definition new_key :: "string \<Rightarrow> string" where
  "new_key k =
     (let nk = k;
          nk = (if startswith k ''$'' then str_replace (CHR ''$'') ''dollar_'' nk else nk);
          nk = (if CHR ''.'' \<in> set k then str_replace (CHR ''.'') ''_'' nk else nk);
          nk = (if CHR ''-'' \<in> set k then str_replace (CHR ''-'') ''_'' nk else nk)
      in nk)"

text \<open>One pass of the key part of the loop body: for a textual key whose \<open>new_key\<close>
  differs, \<^verbatim>\<open>data[new_key] = data.pop(k)\<close>. \<open>None\<close> is the KeyError of \<^verbatim>\<open>pop\<close>.\<close>

definition move_key :: "pykey \<Rightarrow> (pykey \<times> 'v) list \<Rightarrow> (pykey \<times> 'v) list option" where
  "move_key k data =
     (case k of
        KStr s \<Rightarrow>
          (if new_key s \<noteq> s then
             (case dict_pop k data of
                None \<Rightarrow> None
              | Some (v, data') \<Rightarrow> Some (dict_set (KStr (new_key s)) v data'))
           else Some data)
      | KInt i \<Rightarrow> Some data)"

text \<open>
  \<^verbatim>\<open>fix_keys(data)\<close>. The dict loop runs over \<^verbatim>\<open>list(data.items())\<close>, a snapshot, while
  it moves keys of \<^verbatim>\<open>data\<close> itself and mutates each snapshot value in place. A dict holds
  references, so the model numbers the snapshot's value objects \<open>0, 1, \<dots>\<close>: \<open>data\<close> maps
  keys to object numbers, \<open>heap\<close> collects the objects after their in-place visit
  (object \<open>i\<close> is \<open>heap ! i\<close>), and the resulting dict reads each reference from the heap,
  which by then holds every object of the snapshot (lemma \<open>fix_keys_VDict\<close> below).
  \<open>None\<close> is the KeyError of \<^verbatim>\<open>data.pop(k)\<close>.
\<close>

fun fix_keys :: "doc \<Rightarrow> doc option"
  and fix_keys_list :: "doc list \<Rightarrow> doc list option"
  and fix_keys_items ::
    "(pykey \<times> doc) list \<Rightarrow> (pykey \<times> nat) list \<Rightarrow> doc list \<Rightarrow>
     ((pykey \<times> nat) list \<times> doc list) option" where
  "fix_keys (VList xs) = map_option VList (fix_keys_list xs)"
| "fix_keys (VDict kvs) =
     (case fix_keys_items kvs (zip (map fst kvs) [0 ..< length kvs]) [] of
        None \<Rightarrow> None
      | Some (data, heap) \<Rightarrow> Some (VDict (map (\<lambda>kr. (fst kr, heap ! snd kr)) data)))"
| "fix_keys d = Some d"
| "fix_keys_list [] = Some []"
| "fix_keys_list (v # vs) =
     (case (if is_container v then fix_keys v else Some v) of
        None \<Rightarrow> None
      | Some v' \<Rightarrow> map_option ((#) v') (fix_keys_list vs))"
| "fix_keys_items [] data heap = Some (data, heap)"
| "fix_keys_items (kv # items) data heap =
     (case move_key (fst kv) data of
        None \<Rightarrow> None
      | Some data' \<Rightarrow>
          (case (if is_container (snd kv) then fix_keys (snd kv) else Some (snd kv)) of
             None \<Rightarrow> None
           | Some v' \<Rightarrow> fix_keys_items items data' (heap @ [v'])))"

text \<open>The two passes as every call site runs them:
  \<^verbatim>\<open>data = self.replace_none(data); data = self.fix_keys(data)\<close>.\<close>

definition sanitize :: "doc \<Rightarrow> doc option" where
  "sanitize d = fix_keys (replace_none d)"


section \<open>What the process does not own\<close>

text \<open>
  \<^verbatim>\<open>pickle.loads\<close>, the codecs behind \<^verbatim>\<open>bytes.decode\<close> and the SMPP library's table
  \<^verbatim>\<open>data_coding_default_name_map\<close> are not code of this program: they are parameters.
  \<open>loads_pdu\<close> and \<open>loads_bill\<close> are \<^verbatim>\<open>pickle.loads\<close> at the call sites that expect a PDU and
  a bill (\<open>None\<close>: it raises); \<open>decode_utf_8_strict\<close> is \<^verbatim>\<open>decode("utf-8")\<close> (\<open>None\<close>:
  UnicodeDecodeError), the other four are the decoders called with \<^verbatim>\<open>"replace"\<close>, which
  never raise. \<open>float_mul_int\<close> is the product \<^verbatim>\<open>x * n\<close> of a float and an int as the
  runtime computes it: the double nearest to the exact product.
\<close>

datatype error =
    TypeError
  | AttributeError
  | KeyError
  | UnicodeDecodeError
  | UnpicklingError
  | ConnectionClosed
  | KeyboardInterrupt

datatype gsm_feature = UDHI_INDICATOR_SET | SET_REPLY_PATH

text \<open>\<^verbatim>\<open>pdu.params\<close>, read with \<^verbatim>\<open>.get\<close>: a missing parameter is \<open>None\<close> (\<open>VNone\<close>).
  \<open>esm_class\<close> is \<open>None\<close> when the parameter has no \<^verbatim>\<open>gsmFeatures\<close> attribute.\<close>

record pdu_params =
  destination_addr :: "byte list option"
  source_addr :: "byte list option"
  schedule_delivery_time :: doc
  validity_period :: doc
  data_coding :: "int option"
  esm_class :: "gsm_feature list option"
  has_sar_msg_ref_num :: bool
  short_message :: "byte list option"

text \<open>A PDU with its \<^verbatim>\<open>params\<close>, \<^verbatim>\<open>status.name\<close> and, when the attribute exists, \<^verbatim>\<open>nextPdu\<close>.\<close>

datatype pdu = PDU (params: pdu_params) (status_name: string) (nextPdu: "pdu option")

text \<open>The unpickled bill, by the attributes the program reads: \<^verbatim>\<open>bid\<close>, \<^verbatim>\<open>user.uid\<close>,
  \<^verbatim>\<open>user.group.gid\<close>, \<^verbatim>\<open>user.username\<close>, the two quotas, \<^verbatim>\<open>getTotalAmounts()\<close> and
  \<^verbatim>\<open>actions.get("decrement_submit_sm_count")\<close>.\<close>

record billing =
  bid :: doc
  user_uid :: doc
  user_gid :: doc
  user_username :: doc
  quota_balance :: doc
  quota_submit_sm_count :: doc
  getTotalAmounts :: real
  decrement_submit_sm_count :: "int option"

record env =
  loads_pdu :: "byte list \<Rightarrow> pdu option"
  loads_bill :: "byte list \<Rightarrow> billing option"
  decode_ascii :: "byte list \<Rightarrow> string"
  decode_latin_1 :: "byte list \<Rightarrow> string"
  decode_utf_16_be :: "byte list \<Rightarrow> string"
  decode_utf_8 :: "byte list \<Rightarrow> string"
  decode_utf_8_strict :: "byte list \<Rightarrow> string option"
  SMSC_DEFAULT_ALPHABET :: int
  IA5_ASCII :: int
  LATIN_1 :: int
  UCS2 :: int
  float_mul_int :: "real \<Rightarrow> int \<Rightarrow> real"

section \<open>FragmentReassembler\<close>

datatype split_method = Sar | Udh

definition udhi_indicator_set :: "pdu_params \<Rightarrow> bool" where
  "udhi_indicator_set pdu_data =
     (case esm_class pdu_data of
        None \<Rightarrow> False
      | Some gsmFeatures \<Rightarrow> UDHI_INDICATOR_SET \<in> set gsmFeatures)"

text \<open>\<^verbatim>\<open>splitMethod\<close>: \<^verbatim>\<open>"sar"\<close> when the first PDU has \<^verbatim>\<open>sar_msg_ref_num\<close>; else \<^verbatim>\<open>"udh"\<close>
  when the UDHI flag is set and the body starts with \<^verbatim>\<open>b"\x05\x00\x03"\<close> (the slice of a
  missing body raises); else \<^verbatim>\<open>None\<close>.\<close>

definition splitMethod :: "pdu_params \<Rightarrow> error + split_method option" where
  "splitMethod pdu_data =
     (if has_sar_msg_ref_num pdu_data then Inr (Some Sar)
      else if udhi_indicator_set pdu_data then
        (case short_message pdu_data of
           None \<Rightarrow> Inl TypeError
         | Some m \<Rightarrow> if take 3 m = [0x05, 0x00, 0x03] then Inr (Some Udh) else Inr None)
      else Inr None)"

text \<open>The part of a body that is concatenated: all of it (\<^verbatim>\<open>"sar"\<close>) or \<^verbatim>\<open>[6:]\<close>.\<close>

fun strip :: "split_method \<Rightarrow> byte list \<Rightarrow> byte list" where
  "strip Sar m = m"
| "strip Udh m = drop 6 m"

text \<open>\<^verbatim>\<open>while hasattr(pdu, "nextPdu")\<close>: follow the chain, append, count a page.\<close>

fun concat_next :: "split_method \<Rightarrow> pdu \<Rightarrow> byte list \<Rightarrow> nat \<Rightarrow> error + (byte list \<times> nat)" where
  "concat_next sm (PDU ps st None) msg sms_pages = Inr (msg, sms_pages)"
| "concat_next sm (PDU ps st (Some nxt)) msg sms_pages =
     (case short_message (params nxt) of
        None \<Rightarrow> Inl TypeError
      | Some m \<Rightarrow> concat_next sm nxt (msg @ strip sm m) (sms_pages + 1))"

text \<open>\<^verbatim>\<open>short_message\<close> and \<^verbatim>\<open>sms_pages\<close> of a submission. A first PDU without a body
  raises on every path (the slice, the \<^verbatim>\<open>+=\<close>, or \<^verbatim>\<open>hexlify\<close>).\<close>

definition reassemble :: "pdu \<Rightarrow> error + (byte list \<times> nat)" where
  "reassemble pdu =
     (case splitMethod (params pdu) of
        Inl e \<Rightarrow> Inl e
      | Inr sm \<Rightarrow>
          (case short_message (params pdu) of
             None \<Rightarrow> Inl TypeError
           | Some m \<Rightarrow>
               (case sm of
                  None \<Rightarrow> Inr (m, 1)
                | Some method \<Rightarrow> concat_next method pdu (strip method m) 1)))"

text \<open>The PDUs of a chain, in order, and their bodies.\<close>

fun chain :: "pdu \<Rightarrow> pdu list" where
  "chain (PDU ps st None) = [PDU ps st None]"
| "chain (PDU ps st (Some nxt)) = PDU ps st (Some nxt) # chain nxt"

definition bodies :: "pdu \<Rightarrow> byte list option list" where
  "bodies pdu = map (\<lambda>p. short_message (params p)) (chain pdu)"

section \<open>CharsetResolver\<close>

text \<open>\<^verbatim>\<open>short_message_decoded\<close>: the bytes themselves when \<^verbatim>\<open>data_coding is None\<close>, else the
  text of the decoder that the table selects.\<close>

datatype decoded = Undecoded "byte list" | Decoded string

definition decode_short_message :: "env \<Rightarrow> int option \<Rightarrow> byte list \<Rightarrow> decoded" where
  "decode_short_message e dc m =
     (case dc of
        None \<Rightarrow> Undecoded m
      | Some c \<Rightarrow>
          if c = SMSC_DEFAULT_ALPHABET e \<or> c = IA5_ASCII e then Decoded (decode_ascii e m)
          else if c = LATIN_1 e then Decoded (decode_latin_1 e m)
          else if c = UCS2 e then Decoded (decode_utf_16_be e m)
          else Decoded (decode_utf_8 e m))"

fun doc_of_decoded :: "decoded \<Rightarrow> doc" where
  "doc_of_decoded (Undecoded m) = VBytes m"
| "doc_of_decoded (Decoded t) = VStr t"

fun len_decoded :: "decoded \<Rightarrow> nat" where
  "len_decoded (Undecoded m) = length m"
| "len_decoded (Decoded t) = length t"

section \<open>Python helpers\<close>

text \<open>\<^verbatim>\<open>"%s" % n\<close> for a length, \<^verbatim>\<open>len\<close>, truthiness, \<^verbatim>\<open>binascii.hexlify\<close>.\<close>

fun str_nat :: "nat \<Rightarrow> string" where
  "str_nat n =
     (if n < 10 then [char_of (48 + n)]
      else str_nat (n div 10) @ [char_of (48 + n mod 10)])"

fun py_len :: "doc \<Rightarrow> nat option" where
  "py_len (VStr s) = Some (length s)"
| "py_len (VBytes b) = Some (length b)"
| "py_len (VList xs) = Some (length xs)"
| "py_len (VDict kvs) = Some (length kvs)"
| "py_len d = None"

fun truthy :: "doc \<Rightarrow> bool" where
  "truthy VNone = False"
| "truthy (VBool b) = b"
| "truthy (VInt i) = (i \<noteq> 0)"
| "truthy (VFloat r) = (r \<noteq> 0)"
| "truthy (VStr s) = (s \<noteq> [])"
| "truthy (VBytes b) = (b \<noteq> [])"
| "truthy (VList xs) = (xs \<noteq> [])"
| "truthy (VDict kvs) = (kvs \<noteq> [])"

definition hex_digit :: "nat \<Rightarrow> byte" where
  "hex_digit n = (if n < 10 then of_nat (48 + n) else of_nat (87 + n))"

definition hexlify :: "byte list \<Rightarrow> byte list" where
  "hexlify m = concat (map (\<lambda>b. [hex_digit (unat b div 16), hex_digit (unat b mod 16)]) m)"

text \<open>\<^verbatim>\<open>d.get("name")\<close> on a dict with textual keys.\<close>

definition get :: "pydict \<Rightarrow> string \<Rightarrow> doc" where
  "get d name = (case map_of d (KStr name) of None \<Rightarrow> VNone | Some v \<Rightarrow> v)"


section \<open>The reactor object and its surroundings\<close>

text \<open>The fields of \<^verbatim>\<open>LogReactor\<close> that the pipeline reads or writes.\<close>

record log_reactor =
  RETRY_ON_CONNECTION_ERROR :: bool
  amqp_broker_max_retries :: int
  mongo_max_retries :: int
  RETRY_DELAY :: int
  RETRY_FOREVER :: bool
  MONGO_LOG_COLLECTION :: string
  MONGO_USER_COLLECTION :: string
  LOGGER_PRIVACY :: bool

text \<open>\<^verbatim>\<open>__init__\<close>: both retry counters start at \<^verbatim>\<open>max_retries\<close>, and
  \<^verbatim>\<open>RETRY_FOREVER = max_retries <= 0\<close>.\<close>

definition init :: "string \<Rightarrow> string \<Rightarrow> bool \<Rightarrow> bool \<Rightarrow> int \<Rightarrow> int \<Rightarrow> log_reactor" where
  "init log_collection user_collection logger_privacy retry_on_connection_error max_retries
        retry_delay =
     \<lparr>RETRY_ON_CONNECTION_ERROR = retry_on_connection_error,
      amqp_broker_max_retries = max_retries,
      mongo_max_retries = max_retries,
      RETRY_DELAY = retry_delay,
      RETRY_FOREVER = (max_retries \<le> 0),
      MONGO_LOG_COLLECTION = log_collection,
      MONGO_USER_COLLECTION = user_collection,
      LOGGER_PRIVACY = logger_privacy\<rparr>"

text \<open>A delivered message: \<^verbatim>\<open>routing_key\<close>, \<^verbatim>\<open>delivery_tag\<close>, \<^verbatim>\<open>content.body\<close>, and of
  \<^verbatim>\<open>content.properties\<close> the entries \<^verbatim>\<open>message-id\<close>, \<^verbatim>\<open>priority\<close> and \<^verbatim>\<open>headers\<close>
  (\<open>None\<close>: the properties have no headers).\<close>

record amqp_msg =
  routing_key :: string
  delivery_tag :: nat
  message_id :: doc
  priority :: doc
  headers :: "pydict option"
  body :: "byte list"

subsection \<open>The store\<close>

text \<open>
  Modelled from the spec: the class \<^verbatim>\<open>MongoDB\<close> of \<^verbatim>\<open>mongodb.py\<close> is missing from the
  sources. Section 6 gives its contract: \<^verbatim>\<open>fetchOne(collection, key) -> Document?\<close>, and
  \<^verbatim>\<open>upsertMerge(collection, key, partialDocument)\<close>, which "merges top-level and nested
  fields into the existing document or creates it". A field that is a map on both sides
  is merged field by field; any other field of the partial document replaces the old one.
  The store maps a collection and a key to a document.
\<close>

type_synonym store = "((string \<times> doc) \<times> pydict) list"

definition get_one_submodule :: "store \<Rightarrow> string \<Rightarrow> doc \<Rightarrow> pydict option" where
  "get_one_submodule st collection sub_id = map_of st (collection, sub_id)"

fun merge_doc :: "doc \<Rightarrow> doc \<Rightarrow> doc"
  and merge_fields :: "pydict \<Rightarrow> pydict \<Rightarrow> pydict" where
  "merge_doc (VDict old) (VDict new) = VDict (merge_fields old new)"
| "merge_doc old new = new"
| "merge_fields old [] = old"
| "merge_fields old (kv # new) =
     merge_fields
       (dict_set (fst kv)
          (case map_of old (fst kv) of
             None \<Rightarrow> snd kv
           | Some v \<Rightarrow> merge_doc v (snd kv)) old)
       new"

definition update_one :: "store \<Rightarrow> string \<Rightarrow> doc \<Rightarrow> pydict \<Rightarrow> store" where
  "update_one st collection sub_id data =
     dict_set (collection, sub_id)
       (case map_of st (collection, sub_id) of
          None \<Rightarrow> data
        | Some old \<Rightarrow> merge_fields old data) st"

section \<open>EventRouter\<close>

text \<open>The two passes on a dict that is about to be written. \<open>None\<close> is the KeyError of
  \<^verbatim>\<open>fix_keys\<close>.\<close>

definition sanitize_dict :: "pydict \<Rightarrow> pydict option" where
  "sanitize_dict data =
     (case sanitize (VDict data) of
        Some (VDict data') \<Rightarrow> Some data'
      | _ \<Rightarrow> None)"

subsection \<open>submit.sm.*\<close>

definition doc_of_data_coding :: "int option \<Rightarrow> doc" where
  "doc_of_data_coding dc = (case dc of None \<Rightarrow> VNone | Some c \<Rightarrow> VInt c)"

definition byte_content :: "nat \<Rightarrow> string" where
  "byte_content n = ''** '' @ str_nat n @ '' byte content **''"

definition char_content :: "nat \<Rightarrow> string" where
  "char_content n = ''** '' @ str_nat n @ '' char content **''"

text \<open>The dict \<^verbatim>\<open>bill\<close>. \<^verbatim>\<open>billing.getTotalAmounts() * sms_pages\<close> is the runtime's
  product of a float and an int; \<^verbatim>\<open>billing.actions.get(...) * sms_pages\<close> is a product of
  ints and raises when the action \<^verbatim>\<open>decrement_submit_sm_count\<close> is missing.\<close>

definition make_bill ::
  "env \<Rightarrow> billing \<Rightarrow> doc \<Rightarrow> string \<Rightarrow> doc \<Rightarrow> doc \<Rightarrow> string \<Rightarrow> string \<Rightarrow> doc \<Rightarrow> doc \<Rightarrow> nat \<Rightarrow>
   error + pydict" where
  "make_bill e b source route created_at prio dst src sdt vp sms_pages =
     (case decrement_submit_sm_count b of
        None \<Rightarrow> Inl TypeError
      | Some cnt \<Rightarrow>
          Inr [(KStr ''_id'', bid b),
               (KStr ''user'', VDict
                  [(KStr ''_id'', user_uid b),
                   (KStr ''group'', user_gid b),
                   (KStr ''username'', user_username b),
                   (KStr ''quota'', VDict
                      [(KStr ''balance'', quota_balance b),
                       (KStr ''submit_sm_count'', quota_submit_sm_count b)])]),
               (KStr ''source_connector'', source),
               (KStr ''routed_cid'', VStr route),
               (KStr ''created_at'', created_at),
               (KStr ''priority'', prio),
               (KStr ''destination_addr'', VStr dst),
               (KStr ''source_addr'', VStr src),
               (KStr ''schedule_delivery_time'', sdt),
               (KStr ''validity_period'', vp),
               (KStr ''page_count'', VInt (int sms_pages)),
               (KStr ''amount_rate'', VFloat (getTotalAmounts b)),
               (KStr ''amount_charge'',
                  VFloat (float_mul_int e (getTotalAmounts b) (int sms_pages))),
               (KStr ''sms_count_rate'', VInt cnt),
               (KStr ''sms_count_charge'', VInt (cnt * int sms_pages))])"

text \<open>The dict \<^verbatim>\<open>log_data\<close>: in privacy mode the three content fields hold the
  placeholders.\<close>

definition make_log_data ::
  "log_reactor \<Rightarrow> doc \<Rightarrow> doc \<Rightarrow> doc \<Rightarrow> string \<Rightarrow> string \<Rightarrow> string \<Rightarrow> doc \<Rightarrow> doc \<Rightarrow> int option \<Rightarrow>
   doc \<Rightarrow> string \<Rightarrow> nat \<Rightarrow> byte list \<Rightarrow> byte list \<Rightarrow> decoded \<Rightarrow> string \<Rightarrow> string \<Rightarrow> string \<Rightarrow>
   pydict \<Rightarrow> pydict" where
  "make_log_data self created_at prio source route dst src sdt vp dc validity status sms_pages
     msg_bytes binary_message short_message_decoded private_short_message
     private_binary_message private_short_message_decoded bill =
     [(KStr ''created_at'', created_at),
      (KStr ''priority'', prio),
      (KStr ''source'', source),
      (KStr ''route'', VStr route),
      (KStr ''destination_addr'', VStr dst),
      (KStr ''source_addr'', VStr src),
      (KStr ''schedule_delivery_time'', sdt),
      (KStr ''validity_period'', vp),
      (KStr ''data_coding'', doc_of_data_coding dc),
      (KStr ''validity'', validity),
      (KStr ''status'', VStr status),
      (KStr ''page_count'', VInt (int sms_pages)),
      (KStr ''short_message'',
         if \<not> LOGGER_PRIVACY self then VBytes msg_bytes else VStr private_short_message),
      (KStr ''binary_message'',
         if \<not> LOGGER_PRIVACY self then VBytes binary_message else VStr private_binary_message),
      (KStr ''short_message_decoded'',
         if \<not> LOGGER_PRIVACY self then doc_of_decoded short_message_decoded
         else VStr private_short_message_decoded),
      (KStr ''bill'', VDict bill)]"

text \<open>The dict \<^verbatim>\<open>user_data\<close>, read from \<^verbatim>\<open>bill\<close> with chained \<^verbatim>\<open>.get\<close>, which has no
  \<^verbatim>\<open>get\<close> to call on anything but a dict.\<close>

definition make_user_data :: "pydict \<Rightarrow> error + pydict" where
  "make_user_data bill =
     (case get bill ''user'' of
        VDict user \<Rightarrow>
          (case get user ''quota'' of
             VDict quota \<Rightarrow>
               Inr [(KStr ''mt_messaging_cred quota balance'', get quota ''balance''),
                    (KStr ''mt_messaging_cred quota sms_count'', get quota ''submit_sm_count'')]
           | _ \<Rightarrow> Inl AttributeError)
      | _ \<Rightarrow> Inl AttributeError)"

text \<open>\<^verbatim>\<open>.decode("utf-8")\<close> of an address parameter.\<close>

definition decode_addr :: "env \<Rightarrow> byte list option \<Rightarrow> error + string" where
  "decode_addr e a =
     (case a of
        None \<Rightarrow> Inl AttributeError
      | Some bs \<Rightarrow>
          (case decode_utf_8_strict e bs of
             None \<Rightarrow> Inl UnicodeDecodeError
           | Some s \<Rightarrow> Inr s))"

text \<open>\<^verbatim>\<open>billing_pickle\<close>: \<^verbatim>\<open>submit_sm_resp_bill\<close>, or \<^verbatim>\<open>submit_sm_bill\<close> when that is
  falsy; then \<^verbatim>\<open>pickle.loads\<close>, which wants bytes.\<close>

definition load_billing :: "env \<Rightarrow> pydict \<Rightarrow> error + billing" where
  "load_billing e hs =
     (let billing_pickle = get hs ''submit_sm_resp_bill'';
          billing_pickle =
            (if \<not> truthy billing_pickle then get hs ''submit_sm_bill'' else billing_pickle)
      in case billing_pickle of
           VBytes bs \<Rightarrow>
             (case loads_bill e bs of
                None \<Rightarrow> Inl UnpicklingError
              | Some b \<Rightarrow> Inr b)
         | _ \<Rightarrow> Inl TypeError)"

text \<open>
  The submission branch up to the two store writes: the sanitized \<^verbatim>\<open>log_data\<close> and
  \<^verbatim>\<open>user_data\<close>, in the order of the source. Every \<open>Inl\<close> is an exception that the
  branch raises before it writes anything.
\<close>

definition submit_sm_documents :: "env \<Rightarrow> log_reactor \<Rightarrow> amqp_msg \<Rightarrow> error + (pydict \<times> pydict)" where
  "submit_sm_documents e self msg =
     (case headers msg of
        None \<Rightarrow> Inl AttributeError
      | Some hs \<Rightarrow>
     (let created_at = get hs ''created_at'';
          prio = priority msg;
          source = get hs ''source_connector'';
          route = drop 10 (routing_key msg)
      in case loads_pdu e (body msg) of
           None \<Rightarrow> Inl UnpicklingError
         | Some pdu \<Rightarrow>
     (let pdu_data = params pdu
      in case decode_addr e (destination_addr pdu_data) of
           Inl err \<Rightarrow> Inl err
         | Inr dst \<Rightarrow>
     (case decode_addr e (source_addr pdu_data) of
           Inl err \<Rightarrow> Inl err
         | Inr src \<Rightarrow>
     (let sdt = schedule_delivery_time pdu_data;
          vp = validity_period pdu_data;
          dc = data_coding pdu_data;
          validity =
            (if \<not> dict_contains hs (KStr ''expiration'') then VNone else get hs ''expiration'');
          status = status_name pdu
      in case reassemble pdu of
           Inl err \<Rightarrow> Inl err
         | Inr (msg_bytes, sms_pages) \<Rightarrow>
     (let binary_message = hexlify msg_bytes;
          short_message_decoded = decode_short_message e dc msg_bytes;
          private_short_message = byte_content (length msg_bytes);
          private_binary_message = byte_content (length binary_message);
          private_short_message_decoded = char_content (len_decoded short_message_decoded)
      in case load_billing e hs of
           Inl err \<Rightarrow> Inl err
         | Inr b \<Rightarrow>
     (case make_bill e b source route created_at prio dst src sdt vp sms_pages of
           Inl err \<Rightarrow> Inl err
         | Inr bill \<Rightarrow>
     (let log_data =
            make_log_data self created_at prio source route dst src sdt vp dc validity status
              sms_pages msg_bytes binary_message short_message_decoded private_short_message
              private_binary_message private_short_message_decoded bill
      in case make_user_data bill of
           Inl err \<Rightarrow> Inl err
         | Inr user_data \<Rightarrow>
     (case sanitize_dict log_data of
           None \<Rightarrow> Inl KeyError
         | Some log_data' \<Rightarrow>
     (case sanitize_dict user_data of
           None \<Rightarrow> Inl KeyError
         | Some user_data' \<Rightarrow> Inr (log_data', user_data')))))))))))"

text \<open>
  The handlers return the exception they raise, if any, and the store as they leave it.
  After the first write the submission branch reads \<^verbatim>\<open>bill.get("user").get("_id")\<close>: the
  variable \<^verbatim>\<open>bill\<close> is the object under \<^verbatim>\<open>log_data["bill"]\<close>, which both passes have
  rewritten in place.
\<close>

definition submit_sm :: "env \<Rightarrow> log_reactor \<Rightarrow> amqp_msg \<Rightarrow> store \<Rightarrow> error option \<times> store" where
  "submit_sm e self msg st =
     (case submit_sm_documents e self msg of
        Inl err \<Rightarrow> (Some err, st)
      | Inr (log_data, user_data) \<Rightarrow>
          (let st1 = update_one st (MONGO_LOG_COLLECTION self) (message_id msg) log_data
           in case get log_data ''bill'' of
                VDict bill \<Rightarrow>
                  (case get bill ''user'' of
                     VDict user \<Rightarrow>
                       (None, update_one st1 (MONGO_USER_COLLECTION self) (get user ''_id'') user_data)
                   | _ \<Rightarrow> (Some AttributeError, st1))
              | _ \<Rightarrow> (Some AttributeError, st1)))"

subsection \<open>submit.sm.resp.*\<close>

definition submit_sm_resp :: "env \<Rightarrow> log_reactor \<Rightarrow> amqp_msg \<Rightarrow> store \<Rightarrow> error option \<times> store" where
  "submit_sm_resp e self msg st =
     (case headers msg of
        None \<Rightarrow> (Some AttributeError, st)
      | Some hs \<Rightarrow>
          (let created_at = get hs ''created_at''
           in case loads_pdu e (body msg) of
                None \<Rightarrow> (Some UnpicklingError, st)
              | Some pdu \<Rightarrow>
                  (let data =
                         [(KStr ''ack'', VDict
                             [(KStr ''created_at'', created_at),
                              (KStr ''status'', VStr (status_name pdu))])]
                   in case sanitize_dict data of
                        None \<Rightarrow> (Some KeyError, st)
                      | Some data' \<Rightarrow>
                          (None, update_one st (MONGO_LOG_COLLECTION self) (message_id msg) data'))))"

subsection \<open>dlr_thrower.*\<close>

text \<open>The receipt: a copy of the headers, stamped with the clock reading \<open>now\<close>; in privacy
  mode a text that is neither \<^verbatim>\<open>None\<close> nor the empty string is replaced by its length.\<close>

definition dlr_entry :: "log_reactor \<Rightarrow> string \<Rightarrow> pydict \<Rightarrow> error + pydict" where
  "dlr_entry self now hs =
     (let dlr = dict_set (KStr ''created_at'') (VStr now) hs
      in if LOGGER_PRIVACY self then
           (if get dlr ''text'' \<noteq> VNone \<and> get dlr ''text'' \<noteq> VStr [] then
              (case py_len (get dlr ''text'') of
                 None \<Rightarrow> Inl TypeError
               | Some n \<Rightarrow> Inr (dict_set (KStr ''text'') (VStr (char_content n)) dlr))
            else Inr dlr)
         else Inr dlr)"

text \<open>\<^verbatim>\<open>qmsg\<close>: the stored document of the message, or \<^verbatim>\<open>{}\<close> when the store has none.\<close>

definition load_qmsg :: "store \<Rightarrow> string \<Rightarrow> doc \<Rightarrow> pydict" where
  "load_qmsg st collection sub_id =
     (case get_one_submodule st collection sub_id of
        None \<Rightarrow> []
      | Some q \<Rightarrow> q)"

text \<open>\<^verbatim>\<open>qmsg.pop("dlr", [])\<close> followed by \<^verbatim>\<open>append\<close>: the stored list, an empty one when the
  document has none; a stored value that is not a list has no \<^verbatim>\<open>append\<close>.\<close>

definition pop_dlr :: "pydict \<Rightarrow> error + doc list" where
  "pop_dlr qmsg =
     (case map_of qmsg (KStr ''dlr'') of
        None \<Rightarrow> Inr []
      | Some (VList qmsgDlrs) \<Rightarrow> Inr qmsgDlrs
      | Some _ \<Rightarrow> Inl AttributeError)"

definition dlr_thrower :: "log_reactor \<Rightarrow> string \<Rightarrow> amqp_msg \<Rightarrow> store \<Rightarrow> error option \<times> store" where
  "dlr_thrower self now msg st =
     (case headers msg of
        None \<Rightarrow> (Some AttributeError, st)
      | Some hs \<Rightarrow>
          (case dlr_entry self now hs of
             Inl err \<Rightarrow> (Some err, st)
           | Inr dlr \<Rightarrow>
               (let qmsg = load_qmsg st (MONGO_LOG_COLLECTION self) (message_id msg)
                in case pop_dlr qmsg of
                     Inl err \<Rightarrow> (Some err, st)
                   | Inr qmsgDlrs \<Rightarrow>
                       (case sanitize_dict [(KStr ''dlr'', VList (qmsgDlrs @ [VDict dlr]))] of
                          None \<Rightarrow> (Some KeyError, st)
                        | Some data \<Rightarrow>
                            (None,
                             update_one st (MONGO_LOG_COLLECTION self) (message_id msg) data)))))"

subsection \<open>The dispatch and the consumer loop\<close>

definition process_message ::
  "env \<Rightarrow> log_reactor \<Rightarrow> string \<Rightarrow> amqp_msg \<Rightarrow> store \<Rightarrow> error option \<times> store" where
  "process_message e self now msg st =
     (if take 10 (routing_key msg) = ''submit.sm.'' \<and> take 15 (routing_key msg) \<noteq> ''submit.sm.resp.''
      then submit_sm e self msg st
      else if take 15 (routing_key msg) = ''submit.sm.resp.'' then submit_sm_resp e self msg st
      else if take 12 (routing_key msg) = ''dlr_thrower.'' then dlr_thrower self now msg st
      else (None, st))"

text \<open>
  What the process does to its surroundings: the store, the delivery tags it has
  acknowledged (\<^verbatim>\<open>chan.basic_ack\<close>, in order), the calls of \<^verbatim>\<open>StopReactor\<close>, the
  reconnects it has scheduled (\<^verbatim>\<open>reactor.callLater(RETRY_DELAY, rabbitMQConnect)\<close>), the
  connection attempts that are scheduled or under way, and whether the reactor runs.
\<close>

record world =
  self :: log_reactor
  mongosource :: store
  acked :: "nat list"
  stop_reactor_calls :: nat
  reconnects_scheduled :: nat
  pending_connects :: nat
  reactor_running :: bool

text \<open>What \<^verbatim>\<open>queue.get()\<close> yields: a message, with the clock reading of its processing, or
  an exception (the connection is lost, the user interrupts).\<close>

datatype delivery = Deliver amqp_msg string | GetRaises error

text \<open>
  \<^verbatim>\<open>while True\<close> inside the one \<^verbatim>\<open>try\<close>: a message is processed and then acknowledged;
  an exception from \<^verbatim>\<open>queue.get()\<close> or from the processing leaves the loop. When the
  deliveries are used up the task stays suspended in \<^verbatim>\<open>queue.get()\<close> (\<open>None\<close>).
\<close>

fun consume :: "env \<Rightarrow> delivery list \<Rightarrow> world \<Rightarrow> error option \<times> world" where
  "consume e [] w = (None, w)"
| "consume e (GetRaises err # ds) w = (Some err, w)"
| "consume e (Deliver msg now # ds) w =
     (case process_message e (self w) now msg (mongosource w) of
        (Some err, st) \<Rightarrow> (Some err, w\<lparr>mongosource := st\<rparr>)
      | (None, st) \<Rightarrow>
          consume e ds (w\<lparr>mongosource := st, acked := acked w @ [delivery_tag msg]\<rparr>))"

section \<open>BrokerSupervisor\<close>

text \<open>\<^verbatim>\<open>cleanConnectionBreak\<close> contains \<^verbatim>\<open>yield\<close> and is called as a plain function: the
  call builds a generator that nobody runs, so it changes nothing.\<close>

definition cleanConnectionBreak :: "world \<Rightarrow> world" where
  "cleanConnectionBreak w = w"

definition StopReactor :: "world \<Rightarrow> world" where
  "StopReactor w =
     (cleanConnectionBreak w)
       \<lparr>stop_reactor_calls := stop_reactor_calls w + 1, reactor_running := False\<rparr>"

text \<open>The test that both \<^verbatim>\<open>ConError\<close> and the end of \<^verbatim>\<open>gotConnection\<close> make.\<close>

definition no_more_retries :: "log_reactor \<Rightarrow> bool" where
  "no_more_retries s =
     (\<not> RETRY_ON_CONNECTION_ERROR s \<or> (amqp_broker_max_retries s \<le> 0 \<and> \<not> RETRY_FOREVER s))"

text \<open>Decrement the retry count and \<^verbatim>\<open>reactor.callLater(RETRY_DELAY, rabbitMQConnect)\<close>.\<close>

definition reconnect_later :: "world \<Rightarrow> world" where
  "reconnect_later w =
     w\<lparr>self := (self w)\<lparr>amqp_broker_max_retries := amqp_broker_max_retries (self w) - 1\<rparr>,
       reconnects_scheduled := reconnects_scheduled w + 1,
       pending_connects := pending_connects w + 1\<rparr>"

definition ConError :: "world \<Rightarrow> world" where
  "ConError w =
     (let w = cleanConnectionBreak w
      in if no_more_retries (self w) then StopReactor w else reconnect_later w)"

text \<open>The three \<^verbatim>\<open>except\<close> clauses and the code after them: an interrupt switches the
  retries off; then the same test, the decrement, the clean-up and the reconnect.\<close>

definition after_loop :: "error \<Rightarrow> world \<Rightarrow> world" where
  "after_loop err w =
     (let w = (if err = KeyboardInterrupt
               then w\<lparr>self := (self w)\<lparr>RETRY_ON_CONNECTION_ERROR := False\<rparr>\<rparr>
               else w)
      in if no_more_retries (self w) then StopReactor w
         else cleanConnectionBreak (reconnect_later w))"

text \<open>\<^verbatim>\<open>gotConnection\<close> from \<^verbatim>\<open>try\<close> on, for the deliveries of one connection.\<close>

definition gotConnection :: "env \<Rightarrow> delivery list \<Rightarrow> world \<Rightarrow> world" where
  "gotConnection e ds w =
     (case consume e ds w of
        (None, w') \<Rightarrow> w'
      | (Some err, w') \<Rightarrow> after_loop err w')"

text \<open>
  \<^verbatim>\<open>startReactor\<close> calls \<^verbatim>\<open>rabbitMQConnect\<close> once. A connection attempt that fails calls the
  errback \<^verbatim>\<open>ConError\<close>; there is such an event only while the reactor runs and an attempt
  is scheduled or under way (\<open>None\<close>: no such event).
\<close>

definition startReactor :: "log_reactor \<Rightarrow> store \<Rightarrow> world" where
  "startReactor s st =
     \<lparr>self = s, mongosource = st, acked = [], stop_reactor_calls = 0,
      reconnects_scheduled = 0, pending_connects = 1, reactor_running = True\<rparr>"

definition connect_fails :: "world \<Rightarrow> world option" where
  "connect_fails w =
     (if reactor_running w \<and> 0 < pending_connects w
      then Some (ConError (w\<lparr>pending_connects := pending_connects w - 1\<rparr>))
      else None)"

fun connect_failures :: "nat \<Rightarrow> world \<Rightarrow> world option" where
  "connect_failures 0 w = Some w"
| "connect_failures (Suc n) w =
     (case connect_fails w of
        None \<Rightarrow> None
      | Some w' \<Rightarrow> connect_failures n w')"

section \<open>Vocabulary of the properties\<close>

text \<open>Null normalization as the specification words it: every null scalar becomes the
  string \<^verbatim>\<open>"None"\<close>, everything else keeps its value and its structure.\<close>

fun normalize_nulls :: "doc \<Rightarrow> doc" where
  "normalize_nulls VNone = VStr ''None''"
| "normalize_nulls (VList xs) = VList (map normalize_nulls xs)"
| "normalize_nulls (VDict kvs) = VDict (map (\<lambda>kv. (fst kv, normalize_nulls (snd kv))) kvs)"
| "normalize_nulls d = d"

text \<open>Whether a null is left somewhere inside a document.\<close>

fun has_null :: "doc \<Rightarrow> bool"
  and has_null_list :: "doc list \<Rightarrow> bool"
  and has_null_items :: "(pykey \<times> doc) list \<Rightarrow> bool" where
  "has_null (VList xs) = has_null_list xs"
| "has_null (VDict kvs) = has_null_items kvs"
| "has_null d = False"
| "has_null_list [] = False"
| "has_null_list (v # vs) = (v = VNone \<or> has_null v \<or> has_null_list vs)"
| "has_null_items [] = False"
| "has_null_items (kv # kvs) = (snd kv = VNone \<or> has_null (snd kv) \<or> has_null_items kvs)"

text \<open>The key under which the dict loop of \<open>fix_keys\<close> leaves an entry of key \<open>k\<close>, and the
  key moves of the whole loop, without the visits of the values.\<close>

definition fix_key :: "pykey \<Rightarrow> pykey" where
  "fix_key k = (case k of KStr s \<Rightarrow> KStr (new_key s) | KInt i \<Rightarrow> KInt i)"

fun move_keys :: "pykey list \<Rightarrow> (pykey \<times> 'v) list \<Rightarrow> (pykey \<times> 'v) list option" where
  "move_keys [] data = Some data"
| "move_keys (k # ks) data =
     (case move_key k data of None \<Rightarrow> None | Some data' \<Rightarrow> move_keys ks data')"

text \<open>The keys of a document at every depth, and those of its top level.\<close>

fun all_keys :: "doc \<Rightarrow> pykey list"
  and all_keys_list :: "doc list \<Rightarrow> pykey list"
  and all_keys_items :: "(pykey \<times> doc) list \<Rightarrow> pykey list" where
  "all_keys (VList xs) = all_keys_list xs"
| "all_keys (VDict kvs) = all_keys_items kvs"
| "all_keys d = []"
| "all_keys_list [] = []"
| "all_keys_list (v # vs) = all_keys v @ all_keys_list vs"
| "all_keys_items [] = []"
| "all_keys_items (kv # kvs) = fst kv # all_keys (snd kv) @ all_keys_items kvs"

fun top_keys :: "doc \<Rightarrow> pykey list" where
  "top_keys (VDict kvs) = map fst kvs"
| "top_keys d = []"

text \<open>A key that the store accepts: no dot, no dash, no leading dollar.\<close>

definition clean_key :: "pykey \<Rightarrow> bool" where
  "clean_key k =
     (case k of
        KStr s \<Rightarrow> CHR ''.'' \<notin> set s \<and> CHR ''-'' \<notin> set s \<and> \<not> startswith s ''$''
      | KInt i \<Rightarrow> True)"

text \<open>The value at a path of textual keys.\<close>

fun at_path :: "doc \<Rightarrow> string list \<Rightarrow> doc option" where
  "at_path d [] = Some d"
| "at_path (VDict kvs) (name # names) =
     (case map_of kvs (KStr name) of None \<Rightarrow> None | Some v \<Rightarrow> at_path v names)"
| "at_path d (name # names) = None"

text \<open>A dict whose keys \<open>fix_keys\<close> leaves where they are.\<close>

definition fixed_keys :: "pydict \<Rightarrow> bool" where
  "fixed_keys kvs = list_all (\<lambda>kv. fix_key (fst kv) = fst kv) kvs"

text \<open>The delivery tags of the messages among some deliveries.\<close>

fun delivery_tags :: "delivery list \<Rightarrow> nat list" where
  "delivery_tags [] = []"
| "delivery_tags (Deliver msg now # ds) = delivery_tag msg # delivery_tags ds"
| "delivery_tags (GetRaises err # ds) = delivery_tags ds"

section \<open>Concrete inputs\<close>

text \<open>The inputs at which the properties below are evaluated.\<close>

definition demo_params :: "byte list \<Rightarrow> pdu_params" where
  "demo_params m =
     \<lparr>destination_addr = Some [0x31], source_addr = Some [0x32],
      schedule_delivery_time = VNone, validity_period = VNone, data_coding = None,
      esm_class = Some [UDHI_INDICATOR_SET], has_sar_msg_ref_num = False,
      short_message = Some m\<rparr>"

definition demo_chain :: pdu where
  "demo_chain =
     PDU (demo_params [0x05, 0x00, 0x03, 0x2A, 0x02, 0x01, 0x41, 0x42]) ''ESME_ROK''
       (Some (PDU (demo_params [0x05, 0x00, 0x03, 0x2A, 0x02, 0x02, 0x43, 0x44]) ''ESME_ROK'' None))"
definition demo_single :: pdu where
  "demo_single =
     PDU ((demo_params [0x48, 0x69])\<lparr>esm_class := None, data_coding := Some 3\<rparr>) ''ESME_ROK'' None"

definition demo_billing :: billing where
  "demo_billing =
     \<lparr>bid = VStr ''b1'', user_uid = VStr ''u1'', user_gid = VStr ''g1'',
      user_username = VStr ''alice'', quota_balance = VFloat 10, quota_submit_sm_count = VNone,
      getTotalAmounts = 3, decrement_submit_sm_count = Some 1\<rparr>"

text \<open>A bill whose rate is the double nearest to 0.1, and a chain of three pages with a
  reference number.\<close>

definition demo_billing_tenth :: billing where
  "demo_billing_tenth = demo_billing\<lparr>getTotalAmounts := 3602879701896397 / 2 ^ 55\<rparr>"

definition demo_sar_chain :: pdu where
  "demo_sar_chain =
     PDU ((demo_params [0x41])\<lparr>esm_class := None, has_sar_msg_ref_num := True\<rparr>) ''ESME_ROK''
       (Some (PDU ((demo_params [0x42])\<lparr>esm_class := None, has_sar_msg_ref_num := True\<rparr>)
                ''ESME_ROK''
          (Some (PDU ((demo_params [0x43])\<lparr>esm_class := None, has_sar_msg_ref_num := True\<rparr>)
                   ''ESME_ROK'' None))))"

text \<open>The runtime's product at the inputs used here: three times the double nearest to 0.1
  is not a double and is rounded up to \<open>5404319552844596 / 2 ^ 54\<close> (Python prints it as
  \<^verbatim>\<open>0.30000000000000004\<close>); the other products used are small whole numbers, which
  are exact.\<close>

definition demo_float_mul_int :: "real \<Rightarrow> int \<Rightarrow> real" where
  "demo_float_mul_int x n =
     (if x = 3602879701896397 / 2 ^ 55 \<and> n = 3 then 5404319552844596 / 2 ^ 54
      else x * of_int n)"

definition demo_env :: env where
  "demo_env =
     \<lparr>loads_pdu = (\<lambda>b. if b = [0x80] then Some demo_chain
                       else if b = [0x81] then Some demo_single
                       else if b = [0x82] then Some demo_sar_chain else None),
      loads_bill = (\<lambda>b. if b = [0x42] then Some demo_billing
                        else if b = [0x43] then Some demo_billing_tenth else None),
      decode_ascii = map (\<lambda>b. char_of (unat b)),
      decode_latin_1 = map (\<lambda>b. char_of (unat b)),
      decode_utf_16_be = map (\<lambda>b. char_of (unat b)),
      decode_utf_8 = map (\<lambda>b. char_of (unat b)),
      decode_utf_8_strict = (\<lambda>bs. Some (map (\<lambda>b. char_of (unat b)) bs)),
      SMSC_DEFAULT_ALPHABET = 0, IA5_ASCII = 1, LATIN_1 = 3, UCS2 = 8,
      float_mul_int = demo_float_mul_int\<rparr>"

definition demo_reactor :: log_reactor where
  "demo_reactor = init ''logs'' ''users'' False True 2 5"

definition demo_headers :: pydict where
  "demo_headers =
     [(KStr ''created_at'', VStr ''2024-01-01 10:00:00''),
      (KStr ''source_connector'', VStr ''httpapi''),
      (KStr ''submit_sm_bill'', VBytes [0x42])]"

definition demo_submit :: "byte list \<Rightarrow> amqp_msg" where
  "demo_submit b =
     \<lparr>routing_key = ''submit.sm.smppc1'', delivery_tag = 1, message_id = VStr ''m1'',
      priority = VInt 1, headers = Some demo_headers, body = b\<rparr>"

definition demo_submit_tenth :: amqp_msg where
  "demo_submit_tenth =
     (demo_submit [0x82])
       \<lparr>headers := Some [(KStr ''created_at'', VStr ''2024-01-01 10:00:00''),
                         (KStr ''source_connector'', VStr ''httpapi''),
                         (KStr ''submit_sm_bill'', VBytes [0x43])]\<rparr>"

definition demo_bill :: pydict where
  "demo_bill =
     [(KStr ''_id'', VStr ''b1''),
      (KStr ''user'', VDict
         [(KStr ''_id'', VStr ''u1''),
          (KStr ''group'', VStr ''g1''),
          (KStr ''username'', VStr ''alice''),
          (KStr ''quota'', VDict
             [(KStr ''balance'', VFloat 10),
              (KStr ''submit_sm_count'', VStr ''None'')])]),
      (KStr ''source_connector'', VStr ''httpapi''),
      (KStr ''routed_cid'', VStr ''smppc1''),
      (KStr ''created_at'', VStr ''2024-01-01 10:00:00''),
      (KStr ''priority'', VInt 1),
      (KStr ''destination_addr'', VStr ''1''),
      (KStr ''source_addr'', VStr ''2''),
      (KStr ''schedule_delivery_time'', VStr ''None''),
      (KStr ''validity_period'', VStr ''None''),
      (KStr ''page_count'', VInt 2),
      (KStr ''amount_rate'', VFloat 3),
      (KStr ''amount_charge'', VFloat 6),
      (KStr ''sms_count_rate'', VInt 1),
      (KStr ''sms_count_charge'', VInt 2)]"

definition demo_log_data :: pydict where
  "demo_log_data =
     [(KStr ''created_at'', VStr ''2024-01-01 10:00:00''),
      (KStr ''priority'', VInt 1),
      (KStr ''source'', VStr ''httpapi''),
      (KStr ''route'', VStr ''smppc1''),
      (KStr ''destination_addr'', VStr ''1''),
      (KStr ''source_addr'', VStr ''2''),
      (KStr ''schedule_delivery_time'', VStr ''None''),
      (KStr ''validity_period'', VStr ''None''),
      (KStr ''data_coding'', VStr ''None''),
      (KStr ''validity'', VStr ''None''),
      (KStr ''status'', VStr ''ESME_ROK''),
      (KStr ''page_count'', VInt 2),
      (KStr ''short_message'', VBytes [0x41, 0x42, 0x43, 0x44]),
      (KStr ''binary_message'', VBytes [0x34, 0x31, 0x34, 0x32, 0x34, 0x33, 0x34, 0x34]),
      (KStr ''short_message_decoded'', VBytes [0x41, 0x42, 0x43, 0x44]),
      (KStr ''bill'', VDict demo_bill)]"

definition demo_user_data :: pydict where
  "demo_user_data =
     [(KStr ''mt_messaging_cred quota balance'', VFloat 10),
      (KStr ''mt_messaging_cred quota sms_count'', VStr ''None'')]"

text \<open>A connected reactor with an empty store, a submission whose body cannot be unpickled,
  and a well-formed submission after it.\<close>

definition demo_world :: world where
  "demo_world = (startReactor demo_reactor [])\<lparr>pending_connects := 0\<rparr>"

definition demo_bad :: amqp_msg where
  "demo_bad = demo_submit [0x00]"

definition demo_good :: amqp_msg where
  "demo_good = (demo_submit [0x81])\<lparr>delivery_tag := 2, message_id := VStr ''m2''\<rparr>"

text \<open>Two delivery receipts for the message \<^verbatim>\<open>m1\<close>; the first has a null and a dotted key.\<close>

definition demo_dlr1 :: amqp_msg where
  "demo_dlr1 =
     \<lparr>routing_key = ''dlr_thrower.http'', delivery_tag = 3, message_id = VStr ''m1'',
      priority = VNone,
      headers = Some [(KStr ''level'', VInt 1), (KStr ''message_status'', VStr ''ENROUTE''),
                      (KStr ''err.code'', VNone)],
      body = []\<rparr>"

definition demo_dlr2 :: amqp_msg where
  "demo_dlr2 =
     \<lparr>routing_key = ''dlr_thrower.http'', delivery_tag = 4, message_id = VStr ''m1'',
      priority = VNone,
      headers = Some [(KStr ''level'', VInt 1), (KStr ''message_status'', VStr ''DELIVRD'')],
      body = []\<rparr>"

definition demo_entry1 :: doc where
  "demo_entry1 =
     VDict [(KStr ''level'', VInt 1), (KStr ''message_status'', VStr ''ENROUTE''),
            (KStr ''created_at'', VStr ''2024-01-01 10:00:05''),
            (KStr ''err_code'', VStr ''None'')]"

definition demo_entry2 :: doc where
  "demo_entry2 =
     VDict [(KStr ''level'', VInt 1), (KStr ''message_status'', VStr ''DELIVRD''),
            (KStr ''created_at'', VStr ''2024-01-01 10:00:09'')]"

section \<open>Lemmas about the sanitizer\<close>

lemma is_container_replace_none [simp]: "is_container (replace_none d) = is_container d"
  by (cases d) simp_all

lemma replace_none_not_None [simp]: "is_container d \<Longrightarrow> replace_none d \<noteq> VNone"
  by (cases d) simp_all

lemma replace_none_idem_all:
  "replace_none (replace_none d) = replace_none d"
  "replace_none_list (replace_none_list xs) = replace_none_list xs"
  "replace_none_items (replace_none_items kvs) = replace_none_items kvs"
  by (induction d and xs and kvs rule: replace_none_replace_none_list_replace_none_items.induct)
    simp_all

lemma replace_none_normalize_all:
  "is_container d \<Longrightarrow> replace_none d = normalize_nulls d"
  "replace_none_list xs = map normalize_nulls xs"
  "replace_none_items kvs = map (\<lambda>kv. (fst kv, normalize_nulls (snd kv))) kvs"
proof (induction d and xs and kvs rule: replace_none_replace_none_list_replace_none_items.induct)
  case (5 v vs)
  then show ?case by (cases v) simp_all
next
  case (7 kv kvs)
  then show ?case by (cases "snd kv") simp_all
qed simp_all

lemma replace_none_no_null:
  "\<not> has_null (replace_none d)"
  "\<not> has_null_list (replace_none_list xs)"
  "\<not> has_null_items (replace_none_items kvs)"
proof (induction d and xs and kvs rule: replace_none_replace_none_list_replace_none_items.induct)
  case (5 v vs)
  then show ?case by (cases v) simp_all
next
  case (7 kv kvs)
  then show ?case by (cases "snd kv") simp_all
qed simp_all

lemma fix_child_eq [simp]: "(if is_container v then fix_keys v else Some v) = fix_keys v"
  by (cases v) simp_all

subsection \<open>Keys\<close>

lemma set_str_replace: "set (str_replace old new s) \<subseteq> (set s - {old}) \<union> set new"
  by (induction s) (auto simp: str_replace_def)

lemma str_replace_absent: "old \<notin> set s \<Longrightarrow> str_replace old new s = s"
  by (induction s) (auto simp: str_replace_def)

lemma startswith_dollar: "startswith s ''$'' \<longleftrightarrow> (\<exists>t. s = CHR ''$'' # t)"
  by (cases s) (auto simp: startswith_def)

lemma str_replace_hd:
  "\<not> startswith s ''$'' \<Longrightarrow> old \<noteq> CHR ''$''
   \<Longrightarrow> \<not> startswith (str_replace old ''_'' s) ''$''"
  by (cases s) (auto simp: str_replace_def startswith_dollar)

lemma new_key_clean:
  "CHR ''.'' \<notin> set (new_key s)" "CHR ''-'' \<notin> set (new_key s)" "\<not> startswith (new_key s) ''$''"
proof -
  define a where "a = (if startswith s ''$'' then str_replace (CHR ''$'') ''dollar_'' s else s)"
  define b where "b = (if CHR ''.'' \<in> set s then str_replace (CHR ''.'') ''_'' a else a)"
  define c where "c = (if CHR ''-'' \<in> set s then str_replace (CHR ''-'') ''_'' b else b)"
  have nk: "new_key s = c" by (simp add: new_key_def a_def b_def c_def Let_def)
  have a_set: "set a \<subseteq> set s \<union> set ''dollar_''"
    using set_str_replace [of "CHR ''$''" "''dollar_''" s] by (auto simp: a_def)
  have a_dollar: "\<not> startswith a ''$''"
  proof (cases "startswith s ''$''")
    case True
    then have "CHR ''$'' \<notin> set a"
      using set_str_replace [of "CHR ''$''" "''dollar_''" s] by (auto simp: a_def)
    then show ?thesis by (auto simp: startswith_dollar)
  next
    case False then show ?thesis by (simp add: a_def)
  qed
  have b_dot: "CHR ''.'' \<notin> set b"
    using set_str_replace [of "CHR ''.''" "''_''" a] a_set by (auto simp: b_def)
  have b_set: "set b \<subseteq> set s \<union> set ''dollar_''"
    using set_str_replace [of "CHR ''.''" "''_''" a] a_set by (auto simp: b_def)
  have b_dollar: "\<not> startswith b ''$''"
    using a_dollar str_replace_hd [of a "CHR ''.''"] by (auto simp: b_def startswith_def)
  show "CHR ''.'' \<notin> set (new_key s)"
    using set_str_replace [of "CHR ''-''" "''_''" b] b_dot by (auto simp: nk c_def)
  show "CHR ''-'' \<notin> set (new_key s)"
    using set_str_replace [of "CHR ''-''" "''_''" b] b_set by (auto simp: nk c_def)
  show "\<not> startswith (new_key s) ''$''"
    using b_dollar str_replace_hd [of b "CHR ''-''"] by (auto simp: nk c_def startswith_def)
qed

lemma new_key_fixed:
  "CHR ''.'' \<notin> set s \<Longrightarrow> CHR ''-'' \<notin> set s \<Longrightarrow> \<not> startswith s ''$'' \<Longrightarrow> new_key s = s"
  by (simp add: new_key_def)

lemma new_key_idem [simp]: "new_key (new_key s) = new_key s"
  by (rule new_key_fixed) (rule new_key_clean)+

lemma fix_key_idem [simp]: "fix_key (fix_key k) = fix_key k"
  by (cases k) (simp_all add: fix_key_def)


subsection \<open>Dict operations\<close>

lemma keys_dict_set [simp]: "fst ` set (dict_set k v d) = insert k (fst ` set d)"
  by (induction d) auto

lemma distinct_dict_set: "distinct (map fst d) \<Longrightarrow> distinct (map fst (dict_set k v d))"
  by (induction d) (auto simp: image_iff)

lemma vals_dict_set: "snd ` set (dict_set k v d) \<subseteq> insert v (snd ` set d)"
  by (induction d) auto

lemma map_dict_set:
  "map (\<lambda>kv. (fst kv, f (snd kv))) (dict_set k v d) =
   dict_set k (f v) (map (\<lambda>kv. (fst kv, f (snd kv))) d)"
  by (induction d) auto

lemma map_of_map_val:
  "map_of (map (\<lambda>kv. (fst kv, f (snd kv))) d) k = map_option f (map_of d k)"
  by (induction d) auto

lemma map_of_None_iff: "map_of d k = None \<longleftrightarrow> k \<notin> fst ` set d"
  by (simp add: map_of_eq_None_iff)

lemma dict_pop_None_iff: "dict_pop k d = None \<longleftrightarrow> k \<notin> fst ` set d"
proof -
  have "dict_pop k d = None \<longleftrightarrow> map_of d k = None"
    by (simp add: dict_pop_def split: option.splits)
  then show ?thesis by (simp add: map_of_eq_None_iff)
qed

lemma dict_pop_SomeD:
  "dict_pop k d = Some (v, d') \<Longrightarrow> d' = filter (\<lambda>kv. fst kv \<noteq> k) d \<and> (k, v) \<in> set d"
  by (auto simp: dict_pop_def split: option.splits dest: map_of_SomeD)

lemma dict_pop_map:
  "dict_pop k (map (\<lambda>kv. (fst kv, f (snd kv))) d) =
   map_option (\<lambda>vd. (f (fst vd), map (\<lambda>kv. (fst kv, f (snd kv))) (snd vd))) (dict_pop k d)"
  by (auto simp: dict_pop_def map_of_map_val filter_map o_def split: option.splits)

subsection \<open>move_key\<close>

lemma fix_key_KStr: "fix_key (KStr s) = KStr (new_key s)"
  by (simp add: fix_key_def)

lemma move_key_fixed: "fix_key k = k \<Longrightarrow> move_key k data = Some data"
  by (cases k) (auto simp: move_key_def fix_key_def)

lemma move_key_present: "k \<in> fst ` set data \<Longrightarrow> move_key k data \<noteq> None"
  using dict_pop_None_iff [of k data]
  by (cases k) (auto simp: move_key_def split: option.splits)

lemma move_key_keys:
  "move_key k data = Some data' \<Longrightarrow>
   fst ` set data' =
     (if fix_key k = k then fst ` set data else insert (fix_key k) (fst ` set data - {k}))"
proof (cases k)
  case (KStr s)
  assume m: "move_key k data = Some data'"
  show ?thesis
  proof (cases "new_key s = s")
    case True
    with m KStr show ?thesis by (simp add: move_key_def fix_key_def)
  next
    case False
    with m KStr obtain v d' where p: "dict_pop k data = Some (v, d')"
      and d: "data' = dict_set (KStr (new_key s)) v d'"
      by (auto simp: move_key_def split: option.splits)
    from dict_pop_SomeD [OF p] have "fst ` set d' = fst ` set data - {k}"
      by auto
    with d False KStr show ?thesis by (simp add: fix_key_def)
  qed
next
  case (KInt i)
  assume "move_key k data = Some data'"
  with KInt show ?thesis by (simp add: move_key_def fix_key_def)
qed

lemma move_key_distinct:
  "move_key k data = Some data' \<Longrightarrow> distinct (map fst data) \<Longrightarrow> distinct (map fst data')"
  by (cases k)
     (auto simp: move_key_def distinct_map_filter split: option.splits if_splits
           dest!: dict_pop_SomeD intro!: distinct_dict_set)

lemma move_key_vals:
  "move_key k data = Some data' \<Longrightarrow> snd ` set data' \<subseteq> snd ` set data"
proof (cases k)
  case (KStr s)
  assume m: "move_key k data = Some data'"
  show ?thesis
  proof (cases "new_key s = s")
    case True
    with m KStr show ?thesis by (simp add: move_key_def)
  next
    case False
    with m KStr obtain v d' where p: "dict_pop k data = Some (v, d')"
      and d: "data' = dict_set (KStr (new_key s)) v d'"
      by (auto simp: move_key_def split: option.splits)
    from dict_pop_SomeD [OF p] have "snd ` set d' \<subseteq> snd ` set data" "v \<in> snd ` set data"
      by (auto simp: image_iff) force
    with vals_dict_set [of "KStr (new_key s)" v d'] d show ?thesis by blast
  qed
next
  case (KInt i)
  assume "move_key k data = Some data'"
  with KInt show ?thesis by (simp add: move_key_def)
qed

lemma move_key_map:
  "move_key k (map (\<lambda>kv. (fst kv, f (snd kv))) data) =
   map_option (map (\<lambda>kv. (fst kv, f (snd kv)))) (move_key k data)"
  by (cases k) (auto simp: move_key_def dict_pop_map map_dict_set split: option.splits)

subsection \<open>move_keys\<close>

lemma move_keys_fixed: "\<forall>k \<in> set ks. fix_key k = k \<Longrightarrow> move_keys ks data = Some data"
  by (induction ks) (auto simp: move_key_fixed)

lemma move_keys_total:
  "distinct ks \<Longrightarrow> set ks \<subseteq> fst ` set data \<Longrightarrow> move_keys ks data \<noteq> None"
proof (induction ks arbitrary: data)
  case Nil
  then show ?case by simp
next
  case (Cons k ks)
  then have "k \<in> fst ` set data" by simp
  then have "move_key k data \<noteq> None" by (rule move_key_present)
  then obtain data' where m: "move_key k data = Some data'" by auto
  from move_key_keys [OF m] Cons.prems have "set ks \<subseteq> fst ` set data'"
    by (auto split: if_splits)
  with Cons.IH [of data'] Cons.prems m show ?case by simp
qed

lemma move_keys_keys:
  "move_keys ks data = Some data' \<Longrightarrow>
   fst ` set data \<subseteq> set ks \<union> {k. fix_key k = k} \<Longrightarrow>
   fst ` set data' = fix_key ` fst ` set data"
proof (induction ks arbitrary: data)
  case Nil
  then show ?case by force
next
  case (Cons k ks)
  from Cons.prems(1) obtain d1 where m: "move_key k data = Some d1"
    and r: "move_keys ks d1 = Some data'"
    by (auto split: option.splits)
  have k1: "fst ` set d1 =
     (if fix_key k = k then fst ` set data else insert (fix_key k) (fst ` set data - {k}))"
    by (rule move_key_keys [OF m])
  have sub: "fst ` set d1 \<subseteq> set ks \<union> {k. fix_key k = k}"
    using Cons.prems(2) k1 by (auto split: if_splits)
  have kin: "fix_key k \<noteq> k \<Longrightarrow> k \<in> fst ` set data"
    using m dict_pop_None_iff [of k data]
    by (cases k) (auto simp: move_key_def fix_key_def split: option.splits if_splits)
  have "fix_key ` fst ` set d1 = fix_key ` fst ` set data"
  proof (cases "fix_key k = k")
    case True
    with k1 show ?thesis by simp
  next
    case False
    with k1 kin show ?thesis by auto
  qed
  with Cons.IH [OF r sub] show ?case by simp
qed

lemma move_keys_distinct:
  "move_keys ks data = Some data' \<Longrightarrow> distinct (map fst data) \<Longrightarrow> distinct (map fst data')"
  by (induction ks arbitrary: data) (auto split: option.splits dest: move_key_distinct)

lemma move_keys_vals:
  "move_keys ks data = Some data' \<Longrightarrow> snd ` set data' \<subseteq> snd ` set data"
proof (induction ks arbitrary: data)
  case Nil
  then show ?case by simp
next
  case (Cons k ks)
  then obtain d1 where m: "move_key k data = Some d1" and r: "move_keys ks d1 = Some data'"
    by (auto split: option.splits)
  from Cons.IH [OF r] move_key_vals [OF m] show ?case by blast
qed

lemma move_keys_map:
  "move_keys ks (map (\<lambda>kv. (fst kv, f (snd kv))) data) =
   map_option (map (\<lambda>kv. (fst kv, f (snd kv)))) (move_keys ks data)"
proof (induction ks arbitrary: data)
  case Nil
  then show ?case by simp
next
  case (Cons k ks)
  then show ?case by (cases "move_key k data") (simp_all add: move_key_map)
qed


subsection \<open>fix_keys, loop by loop\<close>

lemma fix_keys_list_Some:
  "fix_keys_list xs = Some ys \<longleftrightarrow> list_all2 (\<lambda>x y. fix_keys x = Some y) xs ys"
proof (induction xs arbitrary: ys)
  case Nil
  then show ?case by auto
next
  case (Cons x xs)
  then show ?case by (cases ys) (auto split: option.splits)
qed

lemma fix_keys_items_eq:
  "fix_keys_items kvs data heap =
     (case move_keys (map fst kvs) data of
        None \<Rightarrow> None
      | Some data' \<Rightarrow>
          (case fix_keys_list (map snd kvs) of
             None \<Rightarrow> None
           | Some vs \<Rightarrow> Some (data', heap @ vs)))"
proof (induction kvs arbitrary: data heap)
  case Nil
  then show ?case by simp
next
  case (Cons kv kvs)
  show ?case
  proof (cases "move_key (fst kv) data")
    case None
    then show ?thesis by simp
  next
    case (Some d1)
    show ?thesis
    proof (cases "fix_keys (snd kv)")
      case None
      with Some show ?thesis by (simp split: option.splits)
    next
      case (Some v')
      with \<open>move_key (fst kv) data = Some d1\<close> Cons.IH [of d1 "heap @ [v']"]
      show ?thesis by (simp split: option.splits)
    qed
  qed
qed

lemma zip_deref:
  "length vs = length ks \<Longrightarrow>
   map (\<lambda>kr. (fst kr, vs ! snd kr)) (zip ks [0 ..< length ks]) = zip ks vs"
  by (auto intro: nth_equalityI)

lemma fix_keys_VDict:
  "fix_keys (VDict kvs) =
     (case fix_keys_list (map snd kvs) of
        None \<Rightarrow> None
      | Some vs \<Rightarrow> map_option VDict (move_keys (map fst kvs) (zip (map fst kvs) vs)))"
proof (cases "fix_keys_list (map snd kvs)")
  case None
  then show ?thesis by (simp add: fix_keys_items_eq split: option.splits)
next
  case (Some vs)
  then have len: "length vs = length (map fst kvs)"
    by (auto simp: fix_keys_list_Some dest: list_all2_lengthD)
  have "move_keys (map fst kvs) (zip (map fst kvs) vs) =
        map_option (map (\<lambda>kr. (fst kr, vs ! snd kr)))
          (move_keys (map fst kvs) (zip (map fst kvs) [0 ..< length (map fst kvs)]))"
    using move_keys_map [of "map fst kvs" "\<lambda>r. vs ! r" "zip (map fst kvs) [0 ..< length (map fst kvs)]"]
      zip_deref [OF len] by simp
  with Some show ?thesis
    by (simp add: fix_keys_items_eq split: option.splits)
qed

declare fix_keys.simps(2) [simp del]

lemma fix_keys_VList: "fix_keys (VList xs) = map_option VList (fix_keys_list xs)"
  by simp

lemma fix_keys_scalar: "\<not> is_container d \<Longrightarrow> fix_keys d = Some d"
  by (cases d) simp_all

lemma wf_list_iff: "wf_list xs \<longleftrightarrow> (\<forall>x \<in> set xs. wf_doc x)"
  by (induction xs) auto

lemma wf_items_iff: "wf_items kvs \<longleftrightarrow> (\<forall>kv \<in> set kvs. wf_doc (snd kv))"
  by (induction kvs) auto

lemma fix_keys_list_total:
  "(\<And>x. x \<in> set xs \<Longrightarrow> fix_keys x \<noteq> None) \<Longrightarrow> fix_keys_list xs \<noteq> None"
  by (induction xs) (auto split: option.splits)

lemma keys_zip: "length vs = length ks \<Longrightarrow> fst ` set (zip ks vs) = set ks"
  by (metis map_fst_zip set_map)

lemma vals_zip: "length vs = length ks \<Longrightarrow> snd ` set (zip ks vs) = set vs"
  by (metis map_snd_zip set_map)

lemma snds_snd: "snd kv \<in> Basic_BNFs.snds kv"
  by (cases kv) simp

lemma fix_keys_total: "wf_doc d \<Longrightarrow> fix_keys d \<noteq> None"
proof (induction d)
  case (VList xs)
  then have "fix_keys_list xs \<noteq> None"
    by (intro fix_keys_list_total) (auto simp: wf_list_iff)
  then show ?case by auto
next
  case (VDict kvs)
  have "fix_keys_list (map snd kvs) \<noteq> None"
  proof (rule fix_keys_list_total)
    fix x assume "x \<in> set (map snd kvs)"
    then obtain kv where kv: "kv \<in> set kvs" "x = snd kv" by auto
    then have "x \<in> Basic_BNFs.snds kv" by (simp add: snds_snd)
    with VDict kv show "fix_keys x \<noteq> None" by (auto simp: wf_items_iff)
  qed
  then obtain vs where vs: "fix_keys_list (map snd kvs) = Some vs" by auto
  then have len: "length vs = length kvs"
    by (auto simp: fix_keys_list_Some dest: list_all2_lengthD)
  have "move_keys (map fst kvs) (zip (map fst kvs) vs) \<noteq> None"
    using VDict.prems len by (intro move_keys_total) (simp_all add: keys_zip)
  with vs show ?case by (auto simp: fix_keys_VDict)
qed simp_all


lemma fix_keys_list_fixed:
  "(\<And>x. x \<in> set xs \<Longrightarrow> fix_keys x = Some x) \<Longrightarrow> fix_keys_list xs = Some xs"
  by (induction xs) auto

lemma zip_fst_snd: "zip (map fst kvs) (map snd kvs) = kvs"
  by (induction kvs) auto

text \<open>What a successful dict visit returns.\<close>

lemma fix_keys_VDict_SomeD:
  assumes "fix_keys (VDict kvs) = Some d'"
  obtains vs kvs' where "fix_keys_list (map snd kvs) = Some vs" "length vs = length kvs"
    "move_keys (map fst kvs) (zip (map fst kvs) vs) = Some kvs'" "d' = VDict kvs'"
proof -
  from assms obtain vs where vs: "fix_keys_list (map snd kvs) = Some vs"
    by (auto simp: fix_keys_VDict split: option.splits)
  then have len: "length vs = length kvs"
    by (auto simp: fix_keys_list_Some dest: list_all2_lengthD)
  from assms vs obtain kvs' where
    "move_keys (map fst kvs) (zip (map fst kvs) vs) = Some kvs'" "d' = VDict kvs'"
    by (auto simp: fix_keys_VDict)
  with vs len that show thesis by blast
qed

lemma fix_keys_idem: "fix_keys d = Some d' \<Longrightarrow> fix_keys d' = Some d'"
proof (induction d arbitrary: d')
  case (VList xs)
  then obtain ys where ys: "fix_keys_list xs = Some ys" "d' = VList ys" by auto
  then have l2: "list_all2 (\<lambda>x y. fix_keys x = Some y) xs ys" by (simp add: fix_keys_list_Some)
  have "fix_keys_list ys = Some ys"
  proof (rule fix_keys_list_fixed)
    fix y assume "y \<in> set ys"
    then obtain i where i: "i < length ys" "y = ys ! i" by (auto simp: in_set_conv_nth)
    with l2 have "fix_keys (xs ! i) = Some y" "xs ! i \<in> set xs"
      by (auto simp: list_all2_conv_all_nth)
    with VList.IH show "fix_keys y = Some y" by blast
  qed
  with ys show ?case by simp
next
  case (VDict kvs)
  from VDict.prems obtain vs kvs' where vs: "fix_keys_list (map snd kvs) = Some vs"
    and len: "length vs = length kvs"
    and mv: "move_keys (map fst kvs) (zip (map fst kvs) vs) = Some kvs'"
    and d': "d' = VDict kvs'"
    by (rule fix_keys_VDict_SomeD)
  from vs have l2: "list_all2 (\<lambda>x y. fix_keys x = Some y) (map snd kvs) vs"
    by (simp add: fix_keys_list_Some)
  have fixed: "fix_keys y = Some y" if "y \<in> set vs" for y
  proof -
    from that obtain i where i: "i < length vs" "y = vs ! i" by (auto simp: in_set_conv_nth)
    with l2 len have "fix_keys (snd (kvs ! i)) = Some y" "kvs ! i \<in> set kvs"
      by (auto simp: list_all2_conv_all_nth)
    with VDict.IH [of "kvs ! i" "snd (kvs ! i)" y] show ?thesis by (simp add: snds_snd)
  qed
  have "snd ` set kvs' \<subseteq> set vs"
    using move_keys_vals [OF mv] len by (simp add: vals_zip)
  then have 1: "fix_keys_list (map snd kvs') = Some (map snd kvs')"
    by (intro fix_keys_list_fixed fixed) auto
  have "fst ` set kvs' = fix_key ` fst ` set (zip (map fst kvs) vs)"
    using len by (intro move_keys_keys [OF mv]) (simp add: keys_zip)
  then have "\<forall>k \<in> set (map fst kvs'). fix_key k = k" by auto
  then have 2: "move_keys (map fst kvs') kvs' = Some kvs'" by (rule move_keys_fixed)
  from 1 2 d' show ?case by (simp add: fix_keys_VDict zip_fst_snd)
qed simp_all

subsection \<open>The two passes commute\<close>

lemma normalize_nulls_idem [simp]: "normalize_nulls (normalize_nulls d) = normalize_nulls d"
  by (induction d) (simp_all add: snds_snd)

lemma replace_none_keys:
  "wf_doc (replace_none d) = wf_doc d"
  "wf_list (replace_none_list xs) = wf_list xs"
  "wf_items (replace_none_items kvs) = wf_items kvs \<and> map fst (replace_none_items kvs) = map fst kvs"
  by (induction d and xs and kvs rule: replace_none_replace_none_list_replace_none_items.induct)
    simp_all

lemma fix_keys_list_map:
  "(\<And>x. x \<in> set xs \<Longrightarrow> fix_keys (f x) = map_option f (fix_keys x)) \<Longrightarrow>
   fix_keys_list (map f xs) = map_option (map f) (fix_keys_list xs)"
proof (induction xs)
  case Nil
  then show ?case by simp
next
  case (Cons a xs)
  then have "fix_keys_list (map f xs) = map_option (map f) (fix_keys_list xs)"
    and "fix_keys (f a) = map_option f (fix_keys a)" by auto
  then show ?case
    by (cases "fix_keys a"; cases "fix_keys_list xs") simp_all
qed

lemma zip_map_val: "zip ks (map f vs) = map (\<lambda>kv. (fst kv, f (snd kv))) (zip ks vs)"
  by (simp add: zip_map2 case_prod_beta)

lemma fix_keys_normalize: "fix_keys (normalize_nulls d) = map_option normalize_nulls (fix_keys d)"
proof (induction d)
  case (VList xs)
  then have "fix_keys_list (map normalize_nulls xs) = map_option (map normalize_nulls) (fix_keys_list xs)"
    by (intro fix_keys_list_map) simp
  then show ?case by (simp add: option.map_comp o_def)
next
  case (VDict kvs)
  have "fix_keys_list (map normalize_nulls (map snd kvs)) =
        map_option (map normalize_nulls) (fix_keys_list (map snd kvs))"
  proof (rule fix_keys_list_map)
    fix x assume "x \<in> set (map snd kvs)"
    then obtain kv where "kv \<in> set kvs" "x = snd kv" by auto
    with VDict.IH [of kv x] show "fix_keys (normalize_nulls x) = map_option normalize_nulls (fix_keys x)"
      by (simp add: snds_snd)
  qed
  then show ?case
    by (simp add: fix_keys_VDict o_def zip_map_val move_keys_map option.map_comp
             split: option.splits)
qed simp_all

lemma is_container_fix_keys: "fix_keys d = Some d' \<Longrightarrow> is_container d' = is_container d"
  by (cases d) (auto simp: fix_keys_VDict split: option.splits)

lemma sanitize_idem: "sanitize d = Some d' \<Longrightarrow> sanitize d' = Some d'"
proof (cases "is_container d")
  case False
  assume "sanitize d = Some d'"
  with False show ?thesis by (cases d) (auto simp: sanitize_def)
next
  case True
  assume s: "sanitize d = Some d'"
  with True have f: "fix_keys (normalize_nulls d) = Some d'"
    by (simp add: sanitize_def replace_none_normalize_all(1))
  then have c: "is_container d'"
    using True is_container_fix_keys [OF f] replace_none_normalize_all(1) [OF True]
      is_container_replace_none [of d] by simp
  have n: "normalize_nulls d' = d'"
    using fix_keys_normalize [of "normalize_nulls d"] f by simp
  from fix_keys_idem [OF f] c n show ?thesis
    by (simp add: sanitize_def replace_none_normalize_all(1))
qed

lemma sanitize_total: "wf_doc d \<Longrightarrow> sanitize d \<noteq> None"
  by (simp add: sanitize_def fix_keys_total replace_none_keys)

subsection \<open>Keys after fix_keys\<close>

lemma set_all_keys_list: "set (all_keys_list xs) = (\<Union>x \<in> set xs. set (all_keys x))"
  by (induction xs) auto

lemma set_all_keys_items:
  "set (all_keys_items kvs) = fst ` set kvs \<union> (\<Union>v \<in> snd ` set kvs. set (all_keys v))"
  by (induction kvs) auto

lemma fix_keys_all_keys: "fix_keys d = Some d' \<Longrightarrow> set (all_keys d') \<subseteq> fix_key ` set (all_keys d)"
proof (induction d arbitrary: d')
  case (VList xs)
  then obtain ys where ys: "fix_keys_list xs = Some ys" "d' = VList ys" by auto
  then have l2: "list_all2 (\<lambda>x y. fix_keys x = Some y) xs ys" by (simp add: fix_keys_list_Some)
  have "set (all_keys y) \<subseteq> fix_key ` (\<Union>x \<in> set xs. set (all_keys x))" if "y \<in> set ys" for y
  proof -
    from that obtain i where i: "i < length ys" "y = ys ! i" by (auto simp: in_set_conv_nth)
    with l2 have "fix_keys (xs ! i) = Some y" "xs ! i \<in> set xs"
      by (auto simp: list_all2_conv_all_nth)
    with VList.IH [of "xs ! i" y] show ?thesis by blast
  qed
  with ys show ?case by (auto simp: set_all_keys_list)
next
  case (VDict kvs)
  from VDict.prems obtain vs kvs' where vs: "fix_keys_list (map snd kvs) = Some vs"
    and len: "length vs = length kvs"
    and mv: "move_keys (map fst kvs) (zip (map fst kvs) vs) = Some kvs'"
    and d': "d' = VDict kvs'"
    by (rule fix_keys_VDict_SomeD)
  from vs have l2: "list_all2 (\<lambda>x y. fix_keys x = Some y) (map snd kvs) vs"
    by (simp add: fix_keys_list_Some)
  have inner: "set (all_keys y) \<subseteq> fix_key ` (\<Union>v \<in> snd ` set kvs. set (all_keys v))"
    if "y \<in> set vs" for y
  proof -
    from that obtain i where i: "i < length vs" "y = vs ! i" by (auto simp: in_set_conv_nth)
    with l2 len have "fix_keys (snd (kvs ! i)) = Some y" "kvs ! i \<in> set kvs"
      by (auto simp: list_all2_conv_all_nth)
    with VDict.IH [of "kvs ! i" "snd (kvs ! i)" y]
    have "set (all_keys y) \<subseteq> fix_key ` set (all_keys (snd (kvs ! i)))" by (simp add: snds_snd)
    with \<open>kvs ! i \<in> set kvs\<close> show ?thesis by blast
  qed
  have vals: "snd ` set kvs' \<subseteq> set vs"
    using move_keys_vals [OF mv] len by (simp add: vals_zip)
  have keys: "fst ` set kvs' = fix_key ` fst ` set kvs"
    using len move_keys_keys [OF mv] by (simp add: keys_zip)
  have "set (all_keys v) \<subseteq> fix_key ` set (all_keys_items kvs)" if "v \<in> snd ` set kvs'" for v
  proof -
    from that vals have "v \<in> set vs" by blast
    from inner [OF this] show ?thesis
      unfolding set_all_keys_items image_Un by (rule subset_trans) (rule Un_upper2)
  qed
  moreover have "fst ` set kvs' \<subseteq> fix_key ` set (all_keys_items kvs)"
    using keys by (auto simp: set_all_keys_items)
  ultimately have "set (all_keys_items kvs') \<subseteq> fix_key ` set (all_keys_items kvs)"
    unfolding set_all_keys_items [of kvs'] by blast
  then show ?case by (simp add: d')
qed simp_all

lemma fix_keys_top_keys: "fix_keys d = Some d' \<Longrightarrow> set (top_keys d') = fix_key ` set (top_keys d)"
proof (cases d)
  case (VDict kvs)
  assume "fix_keys d = Some d'"
  with VDict have "fix_keys (VDict kvs) = Some d'" by simp
  then obtain vs kvs' where len: "length vs = length kvs"
    and mv: "move_keys (map fst kvs) (zip (map fst kvs) vs) = Some kvs'"
    and d': "d' = VDict kvs'"
    by (rule fix_keys_VDict_SomeD)
  have "fst ` set kvs' = fix_key ` fst ` set kvs"
    using len move_keys_keys [OF mv] by (simp add: keys_zip)
  with VDict d' show ?thesis by simp
next
  case (VList xs)
  assume "fix_keys d = Some d'"
  with VList show ?thesis by auto
qed auto

lemma fix_key_clean:
  "KStr s \<in> fix_key ` K \<Longrightarrow> CHR ''.'' \<notin> set s \<and> CHR ''-'' \<notin> set s \<and> \<not> startswith s ''$''"
  by (auto simp: fix_key_def new_key_clean split: pykey.splits)

text \<open>The three guarded replacements, as one expression.\<close>

lemma new_key_eq:
  "new_key s =
     str_replace (CHR ''-'') ''_''
       (str_replace (CHR ''.'') ''_''
          (if startswith s ''$'' then str_replace (CHR ''$'') ''dollar_'' s else s))"
proof -
  define a where "a = (if startswith s ''$'' then str_replace (CHR ''$'') ''dollar_'' s else s)"
  have dot: "CHR ''.'' \<in> set a \<longleftrightarrow> CHR ''.'' \<in> set s"
    unfolding a_def by (auto simp: str_replace_def)
  have dash: "CHR ''-'' \<in> set (str_replace (CHR ''.'') ''_'' a) \<longleftrightarrow> CHR ''-'' \<in> set s"
    unfolding a_def by (auto simp: str_replace_def)
  show ?thesis
    unfolding new_key_def Let_def a_def [symmetric]
    using dot dash by (auto simp: str_replace_absent)
qed

text \<open>What \<open>fix_keys\<close> does establish about the keys of its result.\<close>

lemma fix_keys_clean_keys:
  "wf_doc d \<Longrightarrow>
     new_key s =
       str_replace (CHR ''-'') ''_''
         (str_replace (CHR ''.'') ''_''
            (if startswith s ''$'' then str_replace (CHR ''$'') ''dollar_'' s else s))
     \<and> (\<exists>d'. fix_keys d = Some d'
           \<and> set (top_keys d') = fix_key ` set (top_keys d)
           \<and> set (all_keys d') \<subseteq> fix_key ` set (all_keys d)
           \<and> (\<forall>k \<in> set (all_keys d'). clean_key k))"
proof -
  assume wf: "wf_doc d"
  from fix_keys_total [OF wf] obtain d' where 1: "fix_keys d = Some d'" by auto
  have sub: "set (all_keys d') \<subseteq> fix_key ` set (all_keys d)" by (rule fix_keys_all_keys [OF 1])
  have "clean_key k" if "k \<in> set (all_keys d')" for k
  proof (cases k)
    case (KStr t)
    with that sub have "KStr t \<in> fix_key ` set (all_keys d)" by blast
    from fix_key_clean [OF this] KStr show ?thesis by (simp add: clean_key_def)
  next
    case (KInt i)
    then show ?thesis by (simp add: clean_key_def)
  qed
  with 1 sub fix_keys_top_keys [OF 1] new_key_eq [of s] show ?thesis by blast
qed

section \<open>Lemmas about the reassembly\<close>

lemma chain_not_Nil [simp]: "chain pdu \<noteq> []"
  by (induction pdu rule: chain.induct) simp_all

lemma hd_chain [simp]: "hd (chain pdu) = pdu"
  by (induction pdu rule: chain.induct) simp_all

lemma concat_next_bodies:
  "map (\<lambda>p. short_message (params p)) (tl (chain pdu)) = map Some ms \<Longrightarrow>
   concat_next sm pdu acc n = Inr (acc @ concat (map (strip sm) ms), n + length ms)"
proof (induction sm pdu acc n arbitrary: ms rule: concat_next.induct)
  case (1 sm ps st msg sms_pages)
  then show ?case by simp
next
  case (2 sm ps st nxt msg sms_pages)
  from "2.prems" have "map (\<lambda>p. short_message (params p)) (chain nxt) = map Some ms" by simp
  then obtain m ms' where ms: "ms = m # ms'" and m: "short_message (params nxt) = Some m"
    and rest: "map (\<lambda>p. short_message (params p)) (tl (chain nxt)) = map Some ms'"
    by (cases ms; cases "chain nxt") (auto dest: arg_cong [where f = hd])
  from "2.IH" [OF m rest] m ms show ?case by simp
qed

lemma strip_Udh: "strip Udh = drop 6"
  by (rule ext) simp

lemma strip_Sar: "strip Sar = (\<lambda>m. m)"
  by (rule ext) simp

lemma splitMethod_Udh_iff:
  "splitMethod pdu_data = Inr (Some Udh) \<longleftrightarrow>
     \<not> has_sar_msg_ref_num pdu_data \<and> udhi_indicator_set pdu_data
     \<and> (\<exists>m. short_message pdu_data = Some m \<and> take 3 m = [0x05, 0x00, 0x03])"
  by (auto simp: splitMethod_def split: option.splits)

section \<open>Lemmas about the written documents\<close>

lemma map_of_zip_fixed:
  "list_all2 (\<lambda>x y. f x = Some y) (map snd kvs) vs \<Longrightarrow> map_of kvs k = Some v \<Longrightarrow>
   \<exists>v'. map_of (zip (map fst kvs) vs) k = Some v' \<and> f v = Some v'"
proof (induction kvs arbitrary: vs)
  case Nil
  then show ?case by simp
next
  case (Cons kv kvs)
  then obtain y ys where vs: "vs = y # ys" and y: "f (snd kv) = Some y"
    and l2: "list_all2 (\<lambda>x y. f x = Some y) (map snd kvs) ys"
    by (cases vs) auto
  show ?case
  proof (cases "fst kv = k")
    case True
    with Cons.prems(2) vs y show ?thesis by (cases kv) auto
  next
    case False
    with Cons.prems(2) have "map_of kvs k = Some v" by (cases kv) auto
    from Cons.IH [OF l2 this] False vs show ?thesis by (cases kv) auto
  qed
qed

lemma sanitize_VDict:
  "sanitize (VDict kvs) = fix_keys (VDict (map (\<lambda>kv. (fst kv, normalize_nulls (snd kv))) kvs))"
  by (simp add: sanitize_def replace_none_normalize_all(3))

lemma sanitize_dict_SomeI: "sanitize (VDict kvs) = Some (VDict kvs') \<Longrightarrow> sanitize_dict kvs = Some kvs'"
  by (simp add: sanitize_dict_def)

lemma sanitize_dict_SomeD: "sanitize_dict kvs = Some kvs' \<Longrightarrow> sanitize (VDict kvs) = Some (VDict kvs')"
  by (auto simp: sanitize_dict_def split: option.splits doc.splits)

lemma sanitize_child:
  "fix_keys (normalize_nulls v) = Some v' \<Longrightarrow>
     (v = VNone \<longrightarrow> v' = VStr ''None'')
     \<and> (\<not> is_container v \<and> v \<noteq> VNone \<longrightarrow> v' = v)
     \<and> (\<forall>kvs. v = VDict kvs \<longrightarrow> (\<exists>kvs'. v' = VDict kvs' \<and> sanitize_dict kvs = Some kvs'))
     \<and> (is_container v \<longrightarrow> sanitize v = Some v')"
proof (cases v)
  case (VDict kvs)
  assume f: "fix_keys (normalize_nulls v) = Some v'"
  with VDict have s: "sanitize (VDict kvs) = Some v'" by (simp add: sanitize_VDict)
  with VDict f obtain kvs' where "v' = VDict kvs'"
    by (auto simp: elim: fix_keys_VDict_SomeD)
  with s VDict show ?thesis by (auto simp: sanitize_dict_def)
next
  case (VList xs)
  assume f: "fix_keys (normalize_nulls v) = Some v'"
  with VList show ?thesis
    by (simp add: sanitize_def replace_none_normalize_all(2))
qed auto

lemma sanitize_dict_lookup:
  assumes "sanitize_dict data = Some data'" "fixed_keys data" "map_of data k = Some v"
  shows "\<exists>v'. map_of data' k = Some v' \<and> fix_keys (normalize_nulls v) = Some v'"
proof -
  let ?n = "map (\<lambda>kv. (fst kv, normalize_nulls (snd kv))) data"
  from assms(1) have "fix_keys (VDict ?n) = Some (VDict data')"
    by (simp add: sanitize_dict_SomeD sanitize_VDict [symmetric])
  then obtain vs kvs' where vs: "fix_keys_list (map snd ?n) = Some vs"
    and mv: "move_keys (map fst ?n) (zip (map fst ?n) vs) = Some kvs'"
    and d: "VDict data' = VDict kvs'"
    by (rule fix_keys_VDict_SomeD)
  from assms(2) have "\<forall>k \<in> set (map fst ?n). fix_key k = k"
    by (auto simp: fixed_keys_def list_all_iff)
  from move_keys_fixed [OF this, of "zip (map fst ?n) vs"] mv d
  have data': "data' = zip (map fst data) vs"
    by (simp add: o_def)
  from vs have "list_all2 (\<lambda>x y. fix_keys (normalize_nulls x) = Some y) (map snd data) vs"
    by (simp add: fix_keys_list_Some list_all2_map1 o_def)
  from map_of_zip_fixed [OF this assms(3)] data' show ?thesis by simp
qed

lemma fixed_keys_make_log_data:
  "fixed_keys (make_log_data r created_at prio source route dst src sdt vp dc validity status
     sms_pages msg_bytes binary_message short_message_decoded private_short_message
     private_binary_message private_short_message_decoded bill)"
  by (simp add: fixed_keys_def make_log_data_def fix_key_def new_key_def startswith_def)

lemma fixed_keys_make_bill:
  "make_bill e b source route created_at prio dst src sdt vp sms_pages = Inr bill \<Longrightarrow>
   fixed_keys bill"
  by (auto simp: fixed_keys_def make_bill_def fix_key_def new_key_def startswith_def
           split: option.splits)

lemma submit_sm_documents_InrE:
  assumes "submit_sm_documents e r msg = Inr (log_data, user_data)"
  obtains hs pdu dst src m pages b bill ud where
    "headers msg = Some hs" "loads_pdu e (body msg) = Some pdu"
    "reassemble pdu = Inr (m, pages)" "load_billing e hs = Inr b"
    "make_bill e b (get hs ''source_connector'') (drop 10 (routing_key msg)) (get hs ''created_at'')
       (priority msg) dst src (schedule_delivery_time (params pdu)) (validity_period (params pdu))
       pages = Inr bill"
    "sanitize_dict
       (make_log_data r (get hs ''created_at'') (priority msg) (get hs ''source_connector'')
          (drop 10 (routing_key msg)) dst src (schedule_delivery_time (params pdu))
          (validity_period (params pdu)) (data_coding (params pdu))
          (if \<not> dict_contains hs (KStr ''expiration'') then VNone else get hs ''expiration'')
          (status_name pdu) pages m (hexlify m)
          (decode_short_message e (data_coding (params pdu)) m)
          (byte_content (length m)) (byte_content (length (hexlify m)))
          (char_content (len_decoded (decode_short_message e (data_coding (params pdu)) m)))
          bill) = Some log_data"
    "make_user_data bill = Inr ud" "sanitize_dict ud = Some user_data"
  using assms
  unfolding submit_sm_documents_def Let_def
  by (auto split: option.splits sum.splits prod.splits)


lemma sanitized_field:
  assumes "sanitize_dict d = Some d'" "fixed_keys d" "map_of d (KStr n) = Some v"
  shows "v = VNone \<Longrightarrow> at_path (VDict d') [n] = Some (VStr ''None'')"
    and "\<not> is_container v \<Longrightarrow> v \<noteq> VNone \<Longrightarrow> at_path (VDict d') [n] = Some v"
    and "v = VDict kvs \<Longrightarrow>
           \<exists>kvs'. map_of d' (KStr n) = Some (VDict kvs') \<and> sanitize_dict kvs = Some kvs'"
proof -
  from sanitize_dict_lookup [OF assms] obtain v' where
    v': "map_of d' (KStr n) = Some v'" "fix_keys (normalize_nulls v) = Some v'" by blast
  note c = sanitize_child [OF v'(2)]
  show "v = VNone \<Longrightarrow> at_path (VDict d') [n] = Some (VStr ''None'')"
    using c v'(1) by simp
  show "\<not> is_container v \<Longrightarrow> v \<noteq> VNone \<Longrightarrow> at_path (VDict d') [n] = Some v"
    using c v'(1) by simp
  show "v = VDict kvs \<Longrightarrow>
           \<exists>kvs'. map_of d' (KStr n) = Some (VDict kvs') \<and> sanitize_dict kvs = Some kvs'"
    using c v'(1) by auto
qed

lemma at_path_Cons:
  "map_of kvs (KStr n) = Some v \<Longrightarrow> at_path (VDict kvs) (n # ns) = at_path v ns"
  by simp

text \<open>The concrete submission, evaluated.\<close>

lemma demo_submit_chain:
  "submit_sm_documents demo_env demo_reactor (demo_submit [0x80]) = Inr (demo_log_data, demo_user_data)"
  by code_simp

lemma demo_submit_single:
  "\<exists>ld ud. submit_sm_documents demo_env demo_reactor (demo_submit [0x81]) = Inr (ld, ud)"
proof -
  have "case submit_sm_documents demo_env demo_reactor (demo_submit [0x81]) of
          Inl err \<Rightarrow> False | Inr ds \<Rightarrow> True"
    by code_simp
  then show ?thesis
    by (cases "submit_sm_documents demo_env demo_reactor (demo_submit [0x81])") auto
qed

lemma demo_facts:
  "headers (demo_submit bs) = Some demo_headers"
  "loads_pdu demo_env (body (demo_submit [0x80])) = Some demo_chain"
  "loads_pdu demo_env (body (demo_submit [0x81])) = Some demo_single"
  "reassemble demo_chain = Inr ([0x41, 0x42, 0x43, 0x44], 2)"
  "reassemble demo_single = Inr ([0x48, 0x69], 1)"
  "load_billing demo_env demo_headers = Inr demo_billing"
  "getTotalAmounts demo_billing = 3"
  "decrement_submit_sm_count demo_billing = Some 1"
  "data_coding (params demo_chain) = None"
  "LOGGER_PRIVACY demo_reactor = False"
  by (simp_all add: demo_submit_def demo_env_def demo_chain_def demo_single_def demo_params_def
        reassemble_def splitMethod_def udhi_indicator_set_def load_billing_def get_def
        demo_headers_def demo_billing_def demo_reactor_def init_def)

lemma demo_submit_tenth_runs:
  "\<exists>ld ud. submit_sm_documents demo_env demo_reactor demo_submit_tenth = Inr (ld, ud)"
proof -
  have "case submit_sm_documents demo_env demo_reactor demo_submit_tenth of
          Inl err \<Rightarrow> False | Inr ds \<Rightarrow> True"
    by code_simp
  then show ?thesis
    by (cases "submit_sm_documents demo_env demo_reactor demo_submit_tenth") auto
qed

lemma demo_tenth_facts:
  "headers demo_submit_tenth =
     Some [(KStr ''created_at'', VStr ''2024-01-01 10:00:00''),
           (KStr ''source_connector'', VStr ''httpapi''),
           (KStr ''submit_sm_bill'', VBytes [0x43])]"
  "loads_pdu demo_env (body demo_submit_tenth) = Some demo_sar_chain"
  "reassemble demo_sar_chain = Inr ([0x41, 0x42, 0x43], 3)"
  "load_billing demo_env
     [(KStr ''created_at'', VStr ''2024-01-01 10:00:00''),
      (KStr ''source_connector'', VStr ''httpapi''),
      (KStr ''submit_sm_bill'', VBytes [0x43])] = Inr demo_billing_tenth"
  "getTotalAmounts demo_billing_tenth = 3602879701896397 / 2 ^ 55"
  "decrement_submit_sm_count demo_billing_tenth = Some 1"
  by (simp_all add: demo_submit_tenth_def demo_submit_def demo_env_def demo_sar_chain_def
        demo_params_def reassemble_def splitMethod_def load_billing_def get_def
        demo_billing_tenth_def demo_billing_def)

lemma demo_products:
  "float_mul_int demo_env 3 1 = 3"
  "float_mul_int demo_env 3 2 = 6"
  "float_mul_int demo_env (3602879701896397 / 2 ^ 55) 3 = 5404319552844596 / 2 ^ 54"
  "float_mul_int demo_env (3602879701896397 / 36028797018963968) 3 =
     5404319552844596 / 18014398509481984"
  by (simp_all add: demo_env_def demo_float_mul_int_def)

section \<open>Lemmas about the supervisor\<close>

lemma connect_fails_retry:
  assumes "RETRY_ON_CONNECTION_ERROR (self w)" "\<not> RETRY_FOREVER (self w)"
    "0 < amqp_broker_max_retries (self w)" "reactor_running w" "pending_connects w = 1"
  shows "connect_fails w =
     Some (w\<lparr>self := (self w)\<lparr>amqp_broker_max_retries := amqp_broker_max_retries (self w) - 1\<rparr>,
             reconnects_scheduled := reconnects_scheduled w + 1\<rparr>)"
  using assms
  by (simp add: connect_fails_def ConError_def cleanConnectionBreak_def no_more_retries_def
        reconnect_later_def)

lemma connect_fails_stop:
  assumes "RETRY_ON_CONNECTION_ERROR (self w)" "\<not> RETRY_FOREVER (self w)"
    "amqp_broker_max_retries (self w) \<le> 0" "reactor_running w" "pending_connects w = 1"
  shows "connect_fails w =
     Some (w\<lparr>pending_connects := 0, stop_reactor_calls := stop_reactor_calls w + 1,
             reactor_running := False\<rparr>)"
  using assms
  by (simp add: connect_fails_def ConError_def cleanConnectionBreak_def no_more_retries_def
        StopReactor_def)

lemma connect_failures_retry:
  "RETRY_ON_CONNECTION_ERROR (self w) \<Longrightarrow> \<not> RETRY_FOREVER (self w) \<Longrightarrow>
   amqp_broker_max_retries (self w) = int k \<Longrightarrow> reactor_running w \<Longrightarrow> pending_connects w = 1 \<Longrightarrow>
   connect_failures k w =
     Some (w\<lparr>self := (self w)\<lparr>amqp_broker_max_retries := 0\<rparr>,
             reconnects_scheduled := reconnects_scheduled w + k\<rparr>)"
proof (induction k arbitrary: w)
  case 0
  then show ?case by simp
next
  case (Suc k)
  let ?w1 = "w\<lparr>self := (self w)\<lparr>amqp_broker_max_retries := amqp_broker_max_retries (self w) - 1\<rparr>,
             reconnects_scheduled := reconnects_scheduled w + 1\<rparr>"
  from Suc.prems have 1: "connect_fails w = Some ?w1"
    by (intro connect_fails_retry) simp_all
  from Suc.prems have "connect_failures k ?w1 =
     Some (?w1\<lparr>self := (self ?w1)\<lparr>amqp_broker_max_retries := 0\<rparr>,
             reconnects_scheduled := reconnects_scheduled ?w1 + k\<rparr>)"
    by (intro Suc.IH) simp_all
  with 1 show ?case by simp
qed

section \<open>Lemmas about the consumer loop\<close>

lemma consume_fixes:
  "consume e ds w = (x, w') \<Longrightarrow>
     self w' = self w \<and> stop_reactor_calls w' = stop_reactor_calls w
     \<and> reconnects_scheduled w' = reconnects_scheduled w
     \<and> pending_connects w' = pending_connects w \<and> reactor_running w' = reactor_running w"
proof (induction e ds w arbitrary: x w' rule: consume.induct)
  case (3 e msg now ds w)
  show ?case
  proof (cases "process_message e (self w) now msg (mongosource w)")
    case (Pair r st)
    show ?thesis
    proof (cases r)
      case None
      with Pair "3.prems" "3.IH" [OF Pair [symmetric] None] show ?thesis by simp
    next
      case (Some err)
      with Pair "3.prems" show ?thesis by auto
    qed
  qed
qed auto

lemma consume_acked:
  "consume e ds w = (None, w') \<Longrightarrow> acked w' = acked w @ delivery_tags ds"
proof (induction e ds w arbitrary: w' rule: consume.induct)
  case (3 e msg now ds w)
  show ?case
  proof (cases "process_message e (self w) now msg (mongosource w)")
    case (Pair r st)
    show ?thesis
    proof (cases r)
      case None
      with Pair "3.prems" "3.IH" [OF Pair [symmetric] None] show ?thesis by simp
    next
      case (Some err)
      with Pair "3.prems" show ?thesis by auto
    qed
  qed
qed auto

lemma consume_append_fail:
  "consume e ds w = (None, w1) \<Longrightarrow>
   process_message e (self w1) now msg (mongosource w1) = (Some err, st) \<Longrightarrow>
   consume e (ds @ Deliver msg now # ds') w = (Some err, w1\<lparr>mongosource := st\<rparr>)"
proof (induction e ds w arbitrary: w1 rule: consume.induct)
  case (3 e m t ds w)
  show ?case
  proof (cases "process_message e (self w) t m (mongosource w)")
    case (Pair r st')
    show ?thesis
    proof (cases r)
      case None
      with Pair "3.prems" "3.IH" [OF Pair [symmetric] None] show ?thesis by simp
    next
      case (Some err')
      with Pair "3.prems" show ?thesis by auto
    qed
  qed
qed auto

lemma after_loop_counts:
  "stop_reactor_calls (after_loop err w) + reconnects_scheduled (after_loop err w) =
     stop_reactor_calls w + reconnects_scheduled w + 1"
  "acked (after_loop err w) = acked w"
  "mongosource (after_loop err w) = mongosource w"
  by (simp_all add: after_loop_def StopReactor_def reconnect_later_def cleanConnectionBreak_def Let_def)

lemma demo_bad_fails:
  "process_message demo_env demo_reactor ''10:00:01'' demo_bad [] = (Some UnpicklingError, [])"
  by code_simp

section \<open>Lemmas about the store and the receipts\<close>

lemma map_of_dict_set [simp]: "map_of (dict_set k v d) k' = (if k' = k then Some v else map_of d k')"
  by (induction d) auto

lemma get_update_one [simp]:
  "get_one_submodule (update_one st c k data) c k =
     Some (case get_one_submodule st c k of None \<Rightarrow> data | Some old \<Rightarrow> merge_fields old data)"
  by (simp add: get_one_submodule_def update_one_def)

lemma merge_doc_VList [simp]: "merge_doc old (VList xs) = VList xs"
  by (cases old) simp_all

lemma merge_fields_list_field: "map_of (merge_fields q [(k, VList xs)]) k = Some (VList xs)"
  by (cases "map_of q k") simp_all

lemma stored_dlr:
  "map_of (load_qmsg (update_one st c k [(KStr ''dlr'', VList xs)]) c k) (KStr ''dlr'')
     = Some (VList xs)"
proof (cases "get_one_submodule st c k")
  case None
  then show ?thesis by (simp add: load_qmsg_def)
next
  case (Some q)
  then show ?thesis
    by (simp add: load_qmsg_def merge_fields_list_field del: merge_fields.simps)
qed

lemma wf_items_dict_set: "wf_items d \<Longrightarrow> wf_doc v \<Longrightarrow> wf_items (dict_set k v d)"
  by (induction d) auto

lemma wf_dict_set: "wf_doc (VDict d) \<Longrightarrow> wf_doc v \<Longrightarrow> wf_doc (VDict (dict_set k v d))"
  by (simp add: wf_items_dict_set distinct_dict_set)

lemma dlr_entry_wf: "dlr_entry r now hs = Inr d \<Longrightarrow> wf_doc (VDict hs) \<Longrightarrow> wf_doc (VDict d)"
  unfolding dlr_entry_def Let_def
  by (auto split: if_splits option.splits simp: distinct_dict_set wf_items_dict_set)

lemma dlr_route:
  assumes "take 12 rk = ''dlr_thrower.''"
  shows "take 10 rk \<noteq> ''submit.sm.''" "take 15 rk \<noteq> ''submit.sm.resp.''"
proof -
  have "take 10 rk = take 10 (take 12 rk)" by simp
  also have "\<dots> = take 10 ''dlr_thrower.''" by (simp only: assms)
  finally show "take 10 rk \<noteq> ''submit.sm.''" by simp
  show "take 15 rk \<noteq> ''submit.sm.resp.''"
  proof
    assume a: "take 15 rk = ''submit.sm.resp.''"
    have "take 12 rk = take 12 (take 15 rk)" by simp
    also have "\<dots> = take 12 ''submit.sm.resp.''" by (simp only: a)
    finally have "take 12 rk = ''submit.sm.re''" by simp
    then show False by (simp only: assms) simp
  qed
qed

lemma process_message_dlr:
  "take 12 (routing_key msg) = ''dlr_thrower.'' \<Longrightarrow>
   process_message e r now msg st = dlr_thrower r now msg st"
  by (simp add: process_message_def dlr_route)

text \<open>The dict that a receipt branch writes: its one list, entry by entry.\<close>

lemma sanitize_dict_dlr:
  "fix_keys_list (map normalize_nulls xs) = Some ys \<Longrightarrow>
   sanitize_dict [(KStr ''dlr'', VList xs)] = Some [(KStr ''dlr'', VList ys)]"
  by (simp add: sanitize_dict_def sanitize_def fix_keys_VDict replace_none_normalize_all(2)
        move_key_def new_key_def startswith_def)

lemma sanitized_entry:
  "sanitize (VDict d) = Some e \<Longrightarrow> fix_keys (normalize_nulls (VDict d)) = Some e"
  "sanitize (VDict d) = Some e \<Longrightarrow> fix_keys (normalize_nulls e) = Some e"
proof -
  assume s: "sanitize (VDict d) = Some e"
  then show 1: "fix_keys (normalize_nulls (VDict d)) = Some e"
    by (simp add: sanitize_VDict)
  from is_container_fix_keys [OF 1] have c: "is_container e" by simp
  from sanitize_idem [OF s] c show "fix_keys (normalize_nulls e) = Some e"
    by (simp add: sanitize_def replace_none_normalize_all(1))
qed

lemma fix_keys_list_append:
  "fix_keys_list xs = Some xs' \<Longrightarrow> fix_keys_list ys = Some ys' \<Longrightarrow>
   fix_keys_list (xs @ ys) = Some (xs' @ ys')"
  by (simp add: fix_keys_list_Some list_all2_appendI)

text \<open>One receipt: the stored list grows by the sanitized receipt, when the entries already
  stored are sanitized ones.\<close>

lemma dlr_thrower_appends:
  assumes h: "headers msg = Some hs" and d: "dlr_entry r now hs = Inr d"
    and s: "sanitize (VDict d) = Some e"
    and q: "pop_dlr (load_qmsg st (MONGO_LOG_COLLECTION r) (message_id msg)) = Inr old"
    and o: "fix_keys_list (map normalize_nulls old) = Some old"
  shows "dlr_thrower r now msg st =
     (None, update_one st (MONGO_LOG_COLLECTION r) (message_id msg)
              [(KStr ''dlr'', VList (old @ [e]))])"
proof -
  have "fix_keys_list (map normalize_nulls [VDict d]) = Some [e]"
    using sanitized_entry(1) [OF s] by simp
  with o have "fix_keys_list (map normalize_nulls (old @ [VDict d])) = Some (old @ [e])"
    by (simp only: map_append fix_keys_list_append)
  then have sd: "sanitize_dict [(KStr ''dlr'', VList (old @ [VDict d]))]
       = Some [(KStr ''dlr'', VList (old @ [e]))]"
    by (rule sanitize_dict_dlr)
  show ?thesis
    using h d q sd by (simp add: dlr_thrower_def)
qed

lemma pop_dlr_None: "map_of q (KStr ''dlr'') = None \<Longrightarrow> pop_dlr q = Inr []"
  by (simp add: pop_dlr_def)

lemma pop_dlr_VList: "map_of q (KStr ''dlr'') = Some (VList xs) \<Longrightarrow> pop_dlr q = Inr xs"
  by (simp add: pop_dlr_def)

text \<open>The two concrete receipts, evaluated.\<close>

lemma demo_dlr_run:
  "process_message demo_env demo_reactor ''2024-01-01 10:00:05'' demo_dlr1 []
     = (None, [((''logs'', VStr ''m1''), [(KStr ''dlr'', VList [demo_entry1])])])"
  "process_message demo_env demo_reactor ''2024-01-01 10:00:09'' demo_dlr2
       [((''logs'', VStr ''m1''), [(KStr ''dlr'', VList [demo_entry1])])]
     = (None, [((''logs'', VStr ''m1''), [(KStr ''dlr'', VList [demo_entry1, demo_entry2])])])"
  by code_simp+

section \<open>Properties of the sanitizer\<close>

text \<open>
  C9. On a nested document (a list or a dict at the top, any depth below)
  \<open>replace_none\<close> does what null normalization is specified to do: every null value
  becomes the string \<^verbatim>\<open>"None"\<close>; the other scalars, the order and length of every list and
  the keys of every dict stay as they are. No null is left inside the result.
\<close>

theorem replace_none_normalizes:
  "is_container d \<Longrightarrow> replace_none d = normalize_nulls d \<and> \<not> has_null (replace_none d)"
proof -
  assume c: "is_container d"
  then have eq: "replace_none d = normalize_nulls d"
    by (rule replace_none_normalize_all(1))
  have "\<not> has_null (replace_none d)"
    by (rule replace_none_no_null(1))
  with eq show ?thesis by simp
qed


text \<open>A dict with nulls at three depths.\<close>

theorem replace_none_normalizes_witness:
  "is_container (VDict [(KStr ''a'', VNone), (KStr ''b'', VList [VNone, VInt 1, VDict [(KStr ''c'', VNone)]])])
   \<and> replace_none (VDict [(KStr ''a'', VNone), (KStr ''b'', VList [VNone, VInt 1, VDict [(KStr ''c'', VNone)]])])
     = VDict [(KStr ''a'', VStr ''None''),
              (KStr ''b'', VList [VStr ''None'', VInt 1, VDict [(KStr ''c'', VStr ''None'')]])]"
  using replace_none_normalizes
    [of "VDict [(KStr ''a'', VNone), (KStr ''b'', VList [VNone, VInt 1, VDict [(KStr ''c'', VNone)]])]"]
  by simp


text \<open>
  C8. Both passes are idempotent, and so is their composition: on every document (dict
  keys distinct, as in Python) \<open>replace_none\<close> applied twice equals \<open>replace_none\<close> applied
  once, \<open>fix_keys\<close> returns a document on which it returns the same document again, and
  \<open>sanitize\<close>, the two passes in the order of the call sites, does likewise.
\<close>

theorem sanitizer_idempotent:
  "wf_doc d \<Longrightarrow>
     replace_none (replace_none d) = replace_none d
     \<and> (\<exists>d'. fix_keys d = Some d' \<and> fix_keys d' = Some d')
     \<and> (\<exists>d'. sanitize d = Some d' \<and> sanitize d' = Some d')"
proof -
  assume wf: "wf_doc d"
  from fix_keys_total [OF wf] obtain d1 where 1: "fix_keys d = Some d1" by auto
  from sanitize_total [OF wf] obtain d2 where 2: "sanitize d = Some d2" by auto
  from 1 fix_keys_idem [OF 1] 2 sanitize_idem [OF 2] show ?thesis
    by (simp add: replace_none_idem_all(1))
qed


text \<open>A document that both passes change, and its sanitized form, which neither changes.\<close>

theorem sanitizer_idempotent_witness:
  "wf_doc (VDict [(KStr ''$a.b'', VNone), (KStr ''c-d'', VList [VDict [(KStr ''e.f'', VNone)]])])
   \<and> sanitize (VDict [(KStr ''$a.b'', VNone), (KStr ''c-d'', VList [VDict [(KStr ''e.f'', VNone)]])])
       = Some (VDict [(KStr ''dollar_a_b'', VStr ''None''),
                      (KStr ''c_d'', VList [VDict [(KStr ''e_f'', VStr ''None'')]])])
   \<and> sanitize (VDict [(KStr ''dollar_a_b'', VStr ''None''),
                      (KStr ''c_d'', VList [VDict [(KStr ''e_f'', VStr ''None'')]])])
       = Some (VDict [(KStr ''dollar_a_b'', VStr ''None''),
                      (KStr ''c_d'', VList [VDict [(KStr ''e_f'', VStr ''None'')]])])"
proof -
  let ?d = "VDict [(KStr ''$a.b'', VNone), (KStr ''c-d'', VList [VDict [(KStr ''e.f'', VNone)]])]"
  have wf: "wf_doc ?d" by simp
  have s: "sanitize ?d = Some (VDict [(KStr ''dollar_a_b'', VStr ''None''),
                      (KStr ''c_d'', VList [VDict [(KStr ''e_f'', VStr ''None'')]])])"
    by code_simp
  from sanitizer_idempotent [OF wf] s wf show ?thesis by auto
qed


text \<open>
  C10. The keys \<^verbatim>\<open>a.b\<close> and \<^verbatim>\<open>a-b\<close> are both rewritten to \<^verbatim>\<open>a_b\<close>; \<open>fix_keys\<close> turns the dict
  of the two entries into a dict of one entry, which holds the value of the later key:
  the value of the earlier one is dropped and the number of entries goes from two to one.
\<close>

theorem fix_keys_collision:
  "new_key ''a.b'' = ''a_b'' \<and> new_key ''a-b'' = ''a_b''
   \<and> fix_keys (VDict [(KStr ''a.b'', VInt 1), (KStr ''a-b'', VInt 2)])
       = Some (VDict [(KStr ''a_b'', VInt 2)])"
  by code_simp

text \<open>
  C3. The code at the input where it departs from the claim and from its own comment
  (every call site reads \<^verbatim>\<open># Fix any key that contains '$' or '.' or '-'\<close>): the key
  \<^verbatim>\<open>a$b\<close> contains a dollar, but \<open>fix_keys\<close> tests \<^verbatim>\<open>k.startswith("$")\<close> where it tests
  \<^verbatim>\<open>"." in k\<close> and \<^verbatim>\<open>"-" in k\<close> for the other two characters, so it returns the dict as
  it is and a key containing \<^verbatim>\<open>$\<close> remains. For a key that does start with a dollar the
  replacement rewrites every dollar in it.
\<close>

theorem fix_keys_inner_dollar:
  "fix_keys (VDict [(KStr ''a$b'', VInt 1)]) = Some (VDict [(KStr ''a$b'', VInt 1)])
   \<and> KStr ''a$b'' \<in> set (all_keys (VDict [(KStr ''a$b'', VInt 1)]))
   \<and> CHR ''$'' \<in> set ''a$b''
   \<and> new_key ''$a$b'' = ''dollar_adollar_b''"
  by code_simp

section \<open>Properties of the reassembly\<close>

text \<open>
  C5. For a chain that the code classifies as \<^verbatim>\<open>"udh"\<close> (then the UDHI flag is set and
  the first body starts with \<^verbatim>\<open>05 00 03\<close>) and whose PDUs all carry a body, the
  reassembled bytes are the bodies without their first six bytes, concatenated in chain
  order, and the page count is the length of the chain.
\<close>

theorem udh_reassembly:
  "splitMethod (params pdu) = Inr (Some Udh) \<Longrightarrow> bodies pdu = map Some ms \<Longrightarrow>
     udhi_indicator_set (params pdu) \<and> take 3 (hd ms) = [0x05, 0x00, 0x03]
     \<and> reassemble pdu = Inr (concat (map (drop 6) ms), length (chain pdu))"
proof -
  assume sm: "splitMethod (params pdu) = Inr (Some Udh)" and b: "bodies pdu = map Some ms"
  from b have len: "length ms = length (chain pdu)"
    by (metis bodies_def length_map)
  then obtain m ms' where ms: "ms = m # ms'" by (cases ms) auto
  from b ms have m: "short_message (params pdu) = Some m"
    by (cases "chain pdu") (auto simp: bodies_def dest: arg_cong [where f = hd])
  from b ms have rest: "map (\<lambda>p. short_message (params p)) (tl (chain pdu)) = map Some ms'"
    by (cases "chain pdu") (auto simp: bodies_def)
  from sm m have sig: "udhi_indicator_set (params pdu)" "take 3 m = [0x05, 0x00, 0x03]"
    by (auto simp: splitMethod_Udh_iff)
  have "reassemble pdu = concat_next Udh pdu (drop 6 m) 1"
    using sm m by (simp add: reassemble_def)
  with concat_next_bodies [OF rest, of Udh "drop 6 m" 1] ms len sig show ?thesis
    by (simp add: strip_Udh)
qed

text \<open>Two fragments, \<^verbatim>\<open>H + "AB"\<close> and \<^verbatim>\<open>H + "CD"\<close>: the message is \<^verbatim>\<open>"ABCD"\<close> on two pages.\<close>

theorem udh_reassembly_witness:
  "splitMethod (params demo_chain) = Inr (Some Udh)
   \<and> bodies demo_chain =
       map Some [[0x05, 0x00, 0x03, 0x2A, 0x02, 0x01, 0x41, 0x42],
                 [0x05, 0x00, 0x03, 0x2A, 0x02, 0x02, 0x43, 0x44]]
   \<and> reassemble demo_chain = Inr ([0x41, 0x42, 0x43, 0x44], 2)"
proof -
  have 1: "splitMethod (params demo_chain) = Inr (Some Udh)"
    by (simp add: demo_chain_def demo_params_def splitMethod_def udhi_indicator_set_def)
  have 2: "bodies demo_chain =
       map Some [[0x05, 0x00, 0x03, 0x2A, 0x02, 0x01, 0x41, 0x42],
                 [0x05, 0x00, 0x03, 0x2A, 0x02, 0x02, 0x43, 0x44]]"
    by (simp add: demo_chain_def demo_params_def bodies_def)
  from udh_reassembly [OF 1 2] 1 2 show ?thesis
    by (simp add: demo_chain_def)
qed

section \<open>Properties of the supervisor\<close>

text \<open>
  C4. With retries enabled and \<^verbatim>\<open>max_retries\<close> = N > 0, the first N failed connection
  attempts call \<open>StopReactor\<close> never and schedule one reconnect each; the next failure
  calls \<open>StopReactor\<close> once and schedules nothing; after it the reactor is stopped, no
  attempt is left, and so no further failure, stop or reconnect can follow.
\<close>

theorem bounded_retries_terminal:
  assumes "0 < max_retries"
    and "w0 = startReactor (init lc uc privacy True max_retries delay) st"
  shows "\<exists>w w'.
     connect_failures (nat max_retries) w0 = Some w
     \<and> stop_reactor_calls w = 0 \<and> reconnects_scheduled w = nat max_retries \<and> reactor_running w
     \<and> connect_fails w = Some w'
     \<and> stop_reactor_calls w' = 1 \<and> reconnects_scheduled w' = nat max_retries
     \<and> \<not> reactor_running w' \<and> pending_connects w' = 0
     \<and> connect_fails w' = None"
proof -
  let ?w = "w0\<lparr>self := (self w0)\<lparr>amqp_broker_max_retries := 0\<rparr>,
             reconnects_scheduled := reconnects_scheduled w0 + nat max_retries\<rparr>"
  let ?w' = "?w\<lparr>pending_connects := 0, stop_reactor_calls := stop_reactor_calls ?w + 1,
             reactor_running := False\<rparr>"
  have 1: "connect_failures (nat max_retries) w0 = Some ?w"
    using assms by (intro connect_failures_retry) (simp_all add: startReactor_def init_def)
  have 2: "connect_fails ?w = Some ?w'"
    using assms by (intro connect_fails_stop) (simp_all add: startReactor_def init_def)
  have 3: "connect_fails ?w' = None"
    by (simp add: connect_fails_def)
  have "stop_reactor_calls ?w = 0" "reconnects_scheduled ?w = nat max_retries" "reactor_running ?w"
    "stop_reactor_calls ?w' = 1" "reconnects_scheduled ?w' = nat max_retries"
    "\<not> reactor_running ?w'" "pending_connects ?w' = 0"
    using assms by (simp_all add: startReactor_def init_def)
  with 1 2 3 show ?thesis by blast
qed

text \<open>Two retries: the states after the second, the third and a fourth failure.\<close>

theorem bounded_retries_terminal_witness:
  "connect_failures 2 (startReactor (init ''logs'' ''users'' False True 2 5) []) =
     Some \<lparr>self = (init ''logs'' ''users'' False True 2 5)\<lparr>amqp_broker_max_retries := 0\<rparr>,
           mongosource = [], acked = [], stop_reactor_calls = 0, reconnects_scheduled = 2,
           pending_connects = 1, reactor_running = True\<rparr>
   \<and> connect_failures 3 (startReactor (init ''logs'' ''users'' False True 2 5) []) =
     Some \<lparr>self = (init ''logs'' ''users'' False True 2 5)\<lparr>amqp_broker_max_retries := 0\<rparr>,
           mongosource = [], acked = [], stop_reactor_calls = 1, reconnects_scheduled = 2,
           pending_connects = 0, reactor_running = False\<rparr>
   \<and> connect_failures 4 (startReactor (init ''logs'' ''users'' False True 2 5) []) = None
   \<and> (\<exists>w w'. connect_failures (nat 2) (startReactor (init ''logs'' ''users'' False True 2 5) []) = Some w
         \<and> stop_reactor_calls w = 0 \<and> reconnects_scheduled w = nat 2 \<and> reactor_running w
         \<and> connect_fails w = Some w'
         \<and> stop_reactor_calls w' = 1 \<and> reconnects_scheduled w' = nat 2
         \<and> \<not> reactor_running w' \<and> pending_connects w' = 0
         \<and> connect_fails w' = None)"
proof -
  have p: "(0::int) < 2" by simp
  have 2: "connect_failures 2 (startReactor (init ''logs'' ''users'' False True 2 5) []) =
     Some \<lparr>self = (init ''logs'' ''users'' False True 2 5)\<lparr>amqp_broker_max_retries := 0\<rparr>,
           mongosource = [], acked = [], stop_reactor_calls = 0, reconnects_scheduled = 2,
           pending_connects = 1, reactor_running = True\<rparr>"
    by code_simp
  have 3: "connect_failures 3 (startReactor (init ''logs'' ''users'' False True 2 5) []) =
     Some \<lparr>self = (init ''logs'' ''users'' False True 2 5)\<lparr>amqp_broker_max_retries := 0\<rparr>,
           mongosource = [], acked = [], stop_reactor_calls = 1, reconnects_scheduled = 2,
           pending_connects = 0, reactor_running = False\<rparr>"
    by code_simp
  have 4: "connect_failures 4 (startReactor (init ''logs'' ''users'' False True 2 5) []) = None"
    by code_simp
  from bounded_retries_terminal [OF p refl, of "''logs''" "''users''" False 5 "[]"] 2 3 4
  show ?thesis by blast
qed

section \<open>Properties of the submission record\<close>

text \<open>
  C6. Whenever the submission branch reaches its store writes, the bill inside the
  written \<^verbatim>\<open>log_data\<close> has \<^verbatim>\<open>amount_charge\<close> = \<^verbatim>\<open>amount_rate\<close> times \<^verbatim>\<open>page_count\<close> and
  \<^verbatim>\<open>sms_count_charge\<close> = \<^verbatim>\<open>sms_count_rate\<close> times \<^verbatim>\<open>page_count\<close>, where the rates are
  \<^verbatim>\<open>getTotalAmounts()\<close> and the action \<^verbatim>\<open>decrement_submit_sm_count\<close> of the event's bill,
  the page count is the one that the reassembly of the same event's PDU returned, the
  first product is the runtime's product of a float and an int and the second a product
  of ints; the record's own \<^verbatim>\<open>page_count\<close> is the same number.
\<close>

theorem bill_charges:
  assumes "submit_sm_documents e r msg = Inr (log_data, user_data)"
  shows "\<exists>hs pdu m pages b cnt.
     headers msg = Some hs \<and> loads_pdu e (body msg) = Some pdu
     \<and> reassemble pdu = Inr (m, pages)
     \<and> load_billing e hs = Inr b \<and> decrement_submit_sm_count b = Some cnt
     \<and> at_path (VDict log_data) [''page_count''] = Some (VInt (int pages))
     \<and> at_path (VDict log_data) [''bill'', ''page_count''] = Some (VInt (int pages))
     \<and> at_path (VDict log_data) [''bill'', ''amount_rate''] = Some (VFloat (getTotalAmounts b))
     \<and> at_path (VDict log_data) [''bill'', ''amount_charge''] =
         Some (VFloat (float_mul_int e (getTotalAmounts b) (int pages)))
     \<and> at_path (VDict log_data) [''bill'', ''sms_count_rate''] = Some (VInt cnt)
     \<and> at_path (VDict log_data) [''bill'', ''sms_count_charge''] = Some (VInt (cnt * int pages))"
proof -
  from assms obtain hs pdu dst src m pages b bill where
    hs: "headers msg = Some hs" and pdu: "loads_pdu e (body msg) = Some pdu"
    and re: "reassemble pdu = Inr (m, pages)" and b: "load_billing e hs = Inr b"
    and mb: "make_bill e b (get hs ''source_connector'') (drop 10 (routing_key msg))
       (get hs ''created_at'') (priority msg) dst src (schedule_delivery_time (params pdu))
       (validity_period (params pdu)) pages = Inr bill"
    and ld: "sanitize_dict
       (make_log_data r (get hs ''created_at'') (priority msg) (get hs ''source_connector'')
          (drop 10 (routing_key msg)) dst src (schedule_delivery_time (params pdu))
          (validity_period (params pdu)) (data_coding (params pdu))
          (if \<not> dict_contains hs (KStr ''expiration'') then VNone else get hs ''expiration'')
          (status_name pdu) pages m (hexlify m)
          (decode_short_message e (data_coding (params pdu)) m)
          (byte_content (length m)) (byte_content (length (hexlify m)))
          (char_content (len_decoded (decode_short_message e (data_coding (params pdu)) m)))
          bill) = Some log_data"
    by (rule submit_sm_documents_InrE)
  note fk = fixed_keys_make_log_data
  from mb obtain cnt where cnt: "decrement_submit_sm_count b = Some cnt"
    by (auto simp: make_bill_def split: option.splits)
  have pc: "at_path (VDict log_data) [''page_count''] = Some (VInt (int pages))"
    by (rule sanitized_field(2) [OF ld fk]) (simp_all add: make_log_data_def)
  obtain bill' where bill': "map_of log_data (KStr ''bill'') = Some (VDict bill')"
    and sb: "sanitize_dict bill = Some bill'"
    using sanitized_field(3) [OF ld fk, of "''bill''" "VDict bill" bill]
    by (auto simp: make_log_data_def)
  note fb = fixed_keys_make_bill [OF mb]
  have f1: "at_path (VDict bill') [''page_count''] = Some (VInt (int pages))"
    using mb cnt by (intro sanitized_field(2) [OF sb fb]) (auto simp: make_bill_def)
  have f2: "at_path (VDict bill') [''amount_rate''] = Some (VFloat (getTotalAmounts b))"
    using mb cnt by (intro sanitized_field(2) [OF sb fb]) (auto simp: make_bill_def)
  have f3: "at_path (VDict bill') [''amount_charge''] =
      Some (VFloat (float_mul_int e (getTotalAmounts b) (int pages)))"
    using mb cnt by (intro sanitized_field(2) [OF sb fb]) (auto simp: make_bill_def)
  have f4: "at_path (VDict bill') [''sms_count_rate''] = Some (VInt cnt)"
    using mb cnt by (intro sanitized_field(2) [OF sb fb]) (auto simp: make_bill_def)
  have f5: "at_path (VDict bill') [''sms_count_charge''] = Some (VInt (cnt * int pages))"
    using mb cnt by (intro sanitized_field(2) [OF sb fb]) (auto simp: make_bill_def)
  note [simp del] = at_path.simps
  have g: "at_path (VDict log_data) (''bill'' # ns) = at_path (VDict bill') ns" for ns
    by (rule at_path_Cons [OF bill'])
  from hs pdu re b cnt pc f1 f2 f3 f4 f5 show ?thesis
    unfolding g by blast
qed

text \<open>
  A chain of two pages and a single PDU of one page at rate 3, where the products are
  exact; and a chain of three pages at the double nearest to 0.1, where the stored charge
  is the rounded product \<^verbatim>\<open>0.30000000000000004\<close> and not three times the rate.
\<close>

theorem bill_charges_witness:
  "submit_sm_documents demo_env demo_reactor (demo_submit [0x80]) = Inr (demo_log_data, demo_user_data)
   \<and> at_path (VDict demo_log_data) [''bill'', ''page_count''] = Some (VInt 2)
   \<and> at_path (VDict demo_log_data) [''bill'', ''amount_rate''] = Some (VFloat 3)
   \<and> at_path (VDict demo_log_data) [''bill'', ''amount_charge''] = Some (VFloat 6)
   \<and> at_path (VDict demo_log_data) [''bill'', ''sms_count_rate''] = Some (VInt 1)
   \<and> at_path (VDict demo_log_data) [''bill'', ''sms_count_charge''] = Some (VInt 2)
   \<and> (\<exists>ld ud. submit_sm_documents demo_env demo_reactor (demo_submit [0x81]) = Inr (ld, ud)
         \<and> at_path (VDict ld) [''bill'', ''page_count''] = Some (VInt 1)
         \<and> at_path (VDict ld) [''bill'', ''amount_rate''] = Some (VFloat 3)
         \<and> at_path (VDict ld) [''bill'', ''amount_charge''] = Some (VFloat 3)
         \<and> at_path (VDict ld) [''bill'', ''sms_count_rate''] = Some (VInt 1)
         \<and> at_path (VDict ld) [''bill'', ''sms_count_charge''] = Some (VInt 1))
   \<and> (\<exists>ld ud. submit_sm_documents demo_env demo_reactor demo_submit_tenth = Inr (ld, ud)
         \<and> at_path (VDict ld) [''bill'', ''page_count''] = Some (VInt 3)
         \<and> at_path (VDict ld) [''bill'', ''amount_rate''] =
             Some (VFloat (3602879701896397 / 2 ^ 55))
         \<and> at_path (VDict ld) [''bill'', ''amount_charge''] =
             Some (VFloat (5404319552844596 / 2 ^ 54))
         \<and> at_path (VDict ld) [''bill'', ''sms_count_charge''] = Some (VInt 3))
   \<and> (5404319552844596 / 2 ^ 54 :: real) \<noteq> 3602879701896397 / 2 ^ 55 * 3"
proof -
  note [simp del] = at_path.simps
  from demo_submit_single obtain ld ud where
    1: "submit_sm_documents demo_env demo_reactor (demo_submit [0x81]) = Inr (ld, ud)" by blast
  from demo_submit_tenth_runs obtain ld3 ud3 where
    3: "submit_sm_documents demo_env demo_reactor demo_submit_tenth = Inr (ld3, ud3)" by blast
  from bill_charges [OF demo_submit_chain] demo_submit_chain
  have a: "submit_sm_documents demo_env demo_reactor (demo_submit [0x80]) = Inr (demo_log_data, demo_user_data)
   \<and> at_path (VDict demo_log_data) [''bill'', ''page_count''] = Some (VInt 2)
   \<and> at_path (VDict demo_log_data) [''bill'', ''amount_rate''] = Some (VFloat 3)
   \<and> at_path (VDict demo_log_data) [''bill'', ''amount_charge''] = Some (VFloat 6)
   \<and> at_path (VDict demo_log_data) [''bill'', ''sms_count_rate''] = Some (VInt 1)
   \<and> at_path (VDict demo_log_data) [''bill'', ''sms_count_charge''] = Some (VInt 2)"
    by (auto simp: demo_facts demo_products)
  from bill_charges [OF 1]
  have b: "at_path (VDict ld) [''bill'', ''page_count''] = Some (VInt 1)
         \<and> at_path (VDict ld) [''bill'', ''amount_rate''] = Some (VFloat 3)
         \<and> at_path (VDict ld) [''bill'', ''amount_charge''] = Some (VFloat 3)
         \<and> at_path (VDict ld) [''bill'', ''sms_count_rate''] = Some (VInt 1)
         \<and> at_path (VDict ld) [''bill'', ''sms_count_charge''] = Some (VInt 1)"
    by (auto simp: demo_facts demo_products)
  from bill_charges [OF 3]
  have c: "at_path (VDict ld3) [''bill'', ''page_count''] = Some (VInt 3)
         \<and> at_path (VDict ld3) [''bill'', ''amount_rate''] =
             Some (VFloat (3602879701896397 / 2 ^ 55))
         \<and> at_path (VDict ld3) [''bill'', ''amount_charge''] =
             Some (VFloat (5404319552844596 / 2 ^ 54))
         \<and> at_path (VDict ld3) [''bill'', ''sms_count_charge''] = Some (VInt 3)"
    by (auto simp: demo_tenth_facts demo_products)
  have d: "(5404319552844596 / 2 ^ 54 :: real) \<noteq> 3602879701896397 / 2 ^ 55 * 3"
    by simp
  from a b c d 1 3 show ?thesis by blast
qed

text \<open>
  C2 as stated fails: with no \<^verbatim>\<open>data_coding\<close> the branch skips every decoder, so the
  stored \<^verbatim>\<open>short_message_decoded\<close> is the byte string itself and not a text; and
  \<open>replace_none\<close> stores the string \<^verbatim>\<open>"None"\<close> under \<^verbatim>\<open>data_coding\<close>, not null.
\<close>

theorem absent_data_coding_stored_as_bytes:
  "loads_pdu demo_env (body (demo_submit [0x80])) = Some demo_chain
   \<and> data_coding (params demo_chain) = None
   \<and> reassemble demo_chain = Inr ([0x41, 0x42, 0x43, 0x44], 2)
   \<and> submit_sm_documents demo_env demo_reactor (demo_submit [0x80]) = Inr (demo_log_data, demo_user_data)
   \<and> at_path (VDict demo_log_data) [''short_message_decoded''] = Some (VBytes [0x41, 0x42, 0x43, 0x44])
   \<and> VBytes [0x41, 0x42, 0x43, 0x44] \<noteq> VStr (decode_utf_8 demo_env [0x41, 0x42, 0x43, 0x44])
   \<and> at_path (VDict demo_log_data) [''data_coding''] = Some (VStr ''None'')
   \<and> VStr ''None'' \<noteq> VNone"
proof -
  have "at_path (VDict demo_log_data) [''short_message_decoded''] = Some (VBytes [0x41, 0x42, 0x43, 0x44])"
    "at_path (VDict demo_log_data) [''data_coding''] = Some (VStr ''None'')"
    by (simp_all add: demo_log_data_def)
  with demo_submit_chain demo_facts show ?thesis by simp
qed

text \<open>
  C2, amended. For a submission whose \<^verbatim>\<open>data_coding\<close> is absent and which reaches the
  store writes, the written \<^verbatim>\<open>data_coding\<close> is the string \<^verbatim>\<open>"None"\<close>, and the written
  \<^verbatim>\<open>short_message_decoded\<close> is the reassembled byte string, undecoded (in privacy mode:
  the placeholder with the number of its bytes).
\<close>

theorem absent_data_coding:
  assumes "submit_sm_documents e r msg = Inr (log_data, user_data)"
    and "loads_pdu e (body msg) = Some pdu" and "data_coding (params pdu) = None"
  shows "\<exists>m pages.
     reassemble pdu = Inr (m, pages)
     \<and> at_path (VDict log_data) [''data_coding''] = Some (VStr ''None'')
     \<and> at_path (VDict log_data) [''short_message_decoded''] =
         Some (if LOGGER_PRIVACY r then VStr (char_content (length m)) else VBytes m)"
proof -
  from assms(1) obtain hs pdu' dst src m pages b bill where
    pdu': "loads_pdu e (body msg) = Some pdu'"
    and re: "reassemble pdu' = Inr (m, pages)"
    and ld: "sanitize_dict
       (make_log_data r (get hs ''created_at'') (priority msg) (get hs ''source_connector'')
          (drop 10 (routing_key msg)) dst src (schedule_delivery_time (params pdu'))
          (validity_period (params pdu')) (data_coding (params pdu'))
          (if \<not> dict_contains hs (KStr ''expiration'') then VNone else get hs ''expiration'')
          (status_name pdu') pages m (hexlify m)
          (decode_short_message e (data_coding (params pdu')) m)
          (byte_content (length m)) (byte_content (length (hexlify m)))
          (char_content (len_decoded (decode_short_message e (data_coding (params pdu')) m)))
          bill) = Some log_data"
    by (rule submit_sm_documents_InrE)
  from pdu' assms(2) have eq: "pdu' = pdu" by simp
  note fk = fixed_keys_make_log_data
  have dc: "at_path (VDict log_data) [''data_coding''] = Some (VStr ''None'')"
    using assms(3) eq
    by (intro sanitized_field(1) [OF ld fk])
       (simp_all add: make_log_data_def doc_of_data_coding_def)
  have sd: "at_path (VDict log_data) [''short_message_decoded''] =
         Some (if LOGGER_PRIVACY r then VStr (char_content (length m)) else VBytes m)"
    using assms(3) eq
    by (intro sanitized_field(2) [OF ld fk])
       (simp_all add: make_log_data_def decode_short_message_def)
  from re eq dc sd show ?thesis by simp
qed

text \<open>The two-page chain, which has no \<^verbatim>\<open>data_coding\<close>.\<close>

theorem absent_data_coding_witness:
  "submit_sm_documents demo_env demo_reactor (demo_submit [0x80]) = Inr (demo_log_data, demo_user_data)
   \<and> loads_pdu demo_env (body (demo_submit [0x80])) = Some demo_chain
   \<and> data_coding (params demo_chain) = None
   \<and> reassemble demo_chain = Inr ([0x41, 0x42, 0x43, 0x44], 2)
   \<and> at_path (VDict demo_log_data) [''data_coding''] = Some (VStr ''None'')
   \<and> at_path (VDict demo_log_data) [''short_message_decoded''] = Some (VBytes [0x41, 0x42, 0x43, 0x44])"
proof -
  note [simp del] = at_path.simps
  from absent_data_coding [OF demo_submit_chain demo_facts(2) demo_facts(9)] demo_submit_chain
  show ?thesis by (auto simp: demo_facts)
qed

section \<open>Properties of the consumer loop\<close>

text \<open>
  C1 as stated fails: the only \<^verbatim>\<open>try\<close> of \<^verbatim>\<open>gotConnection\<close> encloses the whole loop. A
  submission whose body cannot be unpickled raises out of the loop: it is not
  acknowledged, the message after it is never processed (alone, that message is processed
  and acknowledged), and the code after the loop spends a retry and schedules a
  reconnect.
\<close>

theorem failing_event_not_acknowledged:
  "process_message demo_env demo_reactor ''10:00:01'' demo_bad [] = (Some UnpicklingError, [])
   \<and> acked (gotConnection demo_env [Deliver demo_good ''10:00:02''] demo_world) = [2]
   \<and> acked (gotConnection demo_env [Deliver demo_bad ''10:00:01'', Deliver demo_good ''10:00:02''] demo_world) = []
   \<and> reconnects_scheduled (gotConnection demo_env [Deliver demo_bad ''10:00:01'', Deliver demo_good ''10:00:02''] demo_world) = 1
   \<and> amqp_broker_max_retries (self demo_world) = 2
   \<and> amqp_broker_max_retries (self (gotConnection demo_env [Deliver demo_bad ''10:00:01'', Deliver demo_good ''10:00:02''] demo_world)) = 1"
  by code_simp

text \<open>
  C1, amended. When the processing of a delivered message raises, after any number of
  messages that were processed without one, the loop ends with that exception: only the
  earlier messages are acknowledged, neither the failing message nor any later one is,
  and the failure reaches the code after the loop, which either calls \<open>StopReactor\<close> or
  schedules a reconnect, exactly one of the two once.
\<close>

theorem failing_event_leaves_loop:
  assumes "consume e ds w = (None, w1)"
    and "process_message e (self w1) now msg (mongosource w1) = (Some err, st)"
  shows "consume e (ds @ Deliver msg now # ds') w = (Some err, w1\<lparr>mongosource := st\<rparr>)
     \<and> gotConnection e (ds @ Deliver msg now # ds') w = after_loop err (w1\<lparr>mongosource := st\<rparr>)
     \<and> acked (gotConnection e (ds @ Deliver msg now # ds') w) = acked w @ delivery_tags ds
     \<and> stop_reactor_calls (gotConnection e (ds @ Deliver msg now # ds') w)
         + reconnects_scheduled (gotConnection e (ds @ Deliver msg now # ds') w)
         = stop_reactor_calls w + reconnects_scheduled w + 1"
proof -
  note c = consume_append_fail [OF assms, of ds']
  then have g: "gotConnection e (ds @ Deliver msg now # ds') w = after_loop err (w1\<lparr>mongosource := st\<rparr>)"
    by (simp add: gotConnection_def)
  from consume_fixes [OF assms(1)] consume_acked [OF assms(1)] c g show ?thesis
    by (simp add: after_loop_counts)
qed

text \<open>The undecodable submission, followed by a good one.\<close>

theorem failing_event_leaves_loop_witness:
  "consume demo_env [] demo_world = (None, demo_world)
   \<and> process_message demo_env (self demo_world) ''10:00:01'' demo_bad (mongosource demo_world)
       = (Some UnpicklingError, [])
   \<and> consume demo_env [Deliver demo_bad ''10:00:01'', Deliver demo_good ''10:00:02''] demo_world
       = (Some UnpicklingError, demo_world)
   \<and> acked (gotConnection demo_env [Deliver demo_bad ''10:00:01'', Deliver demo_good ''10:00:02''] demo_world) = []
   \<and> stop_reactor_calls (gotConnection demo_env [Deliver demo_bad ''10:00:01'', Deliver demo_good ''10:00:02''] demo_world)
       + reconnects_scheduled (gotConnection demo_env [Deliver demo_bad ''10:00:01'', Deliver demo_good ''10:00:02''] demo_world) = 1"
proof -
  have 1: "consume demo_env [] demo_world = (None, demo_world)" by simp
  have 2: "process_message demo_env (self demo_world) ''10:00:01'' demo_bad (mongosource demo_world)
       = (Some UnpicklingError, [])"
    using demo_bad_fails by (simp add: demo_world_def startReactor_def)
  have 3: "demo_world\<lparr>mongosource := []\<rparr> = demo_world" "acked demo_world = []"
    "stop_reactor_calls demo_world = 0" "reconnects_scheduled demo_world = 0"
    by (simp_all add: demo_world_def startReactor_def)
  from failing_event_leaves_loop [OF 1 2, of "[Deliver demo_good ''10:00:02'']"] 1 2 3
  show ?thesis by (simp add: after_loop_counts)
qed

section \<open>Properties of the delivery receipts\<close>

text \<open>
  C7. Two delivery receipts for one message id, arriving while the store holds no
  \<^verbatim>\<open>dlr\<close> list for that id (no document, or a document without the field): both are
  processed without an exception; after the first the stored list is the one sanitized
  receipt, after the second it is that same entry followed by the second sanitized
  receipt. When no document existed, the first receipt creates one that holds only the
  list. The headers are dicts with distinct keys; the store is the one of the
  specification.
\<close>

theorem two_receipts:
  assumes r: "take 12 (routing_key m1) = ''dlr_thrower.''"
      "take 12 (routing_key m2) = ''dlr_thrower.''"
    and i: "message_id m1 = mid" "message_id m2 = mid"
    and h: "headers m1 = Some h1" "headers m2 = Some h2"
    and wf: "wf_doc (VDict h1)" "wf_doc (VDict h2)"
    and d: "dlr_entry r t1 h1 = Inr d1" "dlr_entry r t2 h2 = Inr d2"
    and q: "map_of (load_qmsg st (MONGO_LOG_COLLECTION r) mid) (KStr ''dlr'') = None"
  shows "\<exists>e1 e2 st1 st2.
     sanitize (VDict d1) = Some e1 \<and> sanitize (VDict d2) = Some e2
     \<and> process_message e r t1 m1 st = (None, st1)
     \<and> process_message e r t2 m2 st1 = (None, st2)
     \<and> map_of (load_qmsg st1 (MONGO_LOG_COLLECTION r) mid) (KStr ''dlr'') = Some (VList [e1])
     \<and> map_of (load_qmsg st2 (MONGO_LOG_COLLECTION r) mid) (KStr ''dlr'') = Some (VList [e1, e2])
     \<and> (get_one_submodule st (MONGO_LOG_COLLECTION r) mid = None \<longrightarrow>
          get_one_submodule st1 (MONGO_LOG_COLLECTION r) mid = Some [(KStr ''dlr'', VList [e1])])"
proof -
  let ?c = "MONGO_LOG_COLLECTION r"
  from sanitize_total [OF dlr_entry_wf [OF d(1) wf(1)]] obtain e1 where
    e1: "sanitize (VDict d1) = Some e1" by auto
  from sanitize_total [OF dlr_entry_wf [OF d(2) wf(2)]] obtain e2 where
    e2: "sanitize (VDict d2) = Some e2" by auto
  let ?st1 = "update_one st ?c mid [(KStr ''dlr'', VList [e1])]"
  let ?st2 = "update_one ?st1 ?c mid [(KStr ''dlr'', VList [e1, e2])]"
  have q0: "pop_dlr (load_qmsg st ?c (message_id m1)) = Inr []"
    using q i by (simp add: pop_dlr_None)
  have 1: "process_message e r t1 m1 st = (None, ?st1)"
    using dlr_thrower_appends [OF h(1) d(1) e1 q0] i
    by (simp add: process_message_dlr [OF r(1)])
  have s1: "map_of (load_qmsg ?st1 ?c mid) (KStr ''dlr'') = Some (VList [e1])"
    by (rule stored_dlr)
  then have q1: "pop_dlr (load_qmsg ?st1 ?c (message_id m2)) = Inr [e1]"
    using i by (simp add: pop_dlr_VList)
  have o1: "fix_keys_list (map normalize_nulls [e1]) = Some [e1]"
    using sanitized_entry(2) [OF e1] by simp
  have 2: "process_message e r t2 m2 ?st1 = (None, ?st2)"
    using dlr_thrower_appends [OF h(2) d(2) e2 q1 o1] i
    by (simp add: process_message_dlr [OF r(2)])
  have s2: "map_of (load_qmsg ?st2 ?c mid) (KStr ''dlr'') = Some (VList [e1, e2])"
    by (rule stored_dlr)
  have 3: "get_one_submodule st ?c mid = None \<longrightarrow>
          get_one_submodule ?st1 ?c mid = Some [(KStr ''dlr'', VList [e1])]"
    by simp
  show ?thesis
    by (intro exI [of _ e1] exI [of _ e2] exI [of _ ?st1] exI [of _ ?st2] conjI e1 e2 1 2 s1 s2 3)
qed

text \<open>Two receipts into an empty store.\<close>

theorem two_receipts_witness:
  "process_message demo_env demo_reactor ''2024-01-01 10:00:05'' demo_dlr1 []
     = (None, [((''logs'', VStr ''m1''), [(KStr ''dlr'', VList [demo_entry1])])])
   \<and> process_message demo_env demo_reactor ''2024-01-01 10:00:09'' demo_dlr2
       [((''logs'', VStr ''m1''), [(KStr ''dlr'', VList [demo_entry1])])]
     = (None, [((''logs'', VStr ''m1''), [(KStr ''dlr'', VList [demo_entry1, demo_entry2])])])
   \<and> (\<exists>d1 d2 e1 e2.
         dlr_entry demo_reactor ''2024-01-01 10:00:05'' (the (headers demo_dlr1)) = Inr d1
         \<and> dlr_entry demo_reactor ''2024-01-01 10:00:09'' (the (headers demo_dlr2)) = Inr d2
         \<and> sanitize (VDict d1) = Some e1 \<and> sanitize (VDict d2) = Some e2
         \<and> map_of (load_qmsg [((''logs'', VStr ''m1''), [(KStr ''dlr'', VList [demo_entry1, demo_entry2])])]
                    ''logs'' (VStr ''m1'')) (KStr ''dlr'') = Some (VList [e1, e2]))"
proof -
  let ?h1 = "[(KStr ''level'', VInt 1), (KStr ''message_status'', VStr ''ENROUTE''),
              (KStr ''err.code'', VNone)]"
  let ?h2 = "[(KStr ''level'', VInt 1), (KStr ''message_status'', VStr ''DELIVRD'')]"
  let ?d1 = "dict_set (KStr ''created_at'') (VStr ''2024-01-01 10:00:05'') ?h1"
  let ?d2 = "dict_set (KStr ''created_at'') (VStr ''2024-01-01 10:00:09'') ?h2"
  have r: "take 12 (routing_key demo_dlr1) = ''dlr_thrower.''"
    "take 12 (routing_key demo_dlr2) = ''dlr_thrower.''"
    by (simp_all add: demo_dlr1_def demo_dlr2_def)
  have i: "message_id demo_dlr1 = VStr ''m1''" "message_id demo_dlr2 = VStr ''m1''"
    by (simp_all add: demo_dlr1_def demo_dlr2_def)
  have h: "headers demo_dlr1 = Some ?h1" "headers demo_dlr2 = Some ?h2"
    by (simp_all add: demo_dlr1_def demo_dlr2_def)
  have wf: "wf_doc (VDict ?h1)" "wf_doc (VDict ?h2)" by simp_all
  have d: "dlr_entry demo_reactor ''2024-01-01 10:00:05'' ?h1 = Inr ?d1"
    "dlr_entry demo_reactor ''2024-01-01 10:00:09'' ?h2 = Inr ?d2"
    by (simp_all add: dlr_entry_def demo_reactor_def init_def)
  have c: "MONGO_LOG_COLLECTION demo_reactor = ''logs''"
    by (simp add: demo_reactor_def init_def)
  have q: "map_of (load_qmsg [] (MONGO_LOG_COLLECTION demo_reactor) (VStr ''m1'')) (KStr ''dlr'') = None"
    by (simp add: load_qmsg_def get_one_submodule_def)
  from two_receipts [OF r i h wf d q, of demo_env] obtain e1 e2 st1 st2 where
    e: "sanitize (VDict ?d1) = Some e1" "sanitize (VDict ?d2) = Some e2"
    and p1: "process_message demo_env demo_reactor ''2024-01-01 10:00:05'' demo_dlr1 [] = (None, st1)"
    and p2: "process_message demo_env demo_reactor ''2024-01-01 10:00:09'' demo_dlr2 st1 = (None, st2)"
    and s2: "map_of (load_qmsg st2 (MONGO_LOG_COLLECTION demo_reactor) (VStr ''m1'')) (KStr ''dlr'')
               = Some (VList [e1, e2])"
    by blast
  from p1 demo_dlr_run(1) have st1: "st1 = [((''logs'', VStr ''m1''), [(KStr ''dlr'', VList [demo_entry1])])]"
    by simp
  from p2 demo_dlr_run(2) have st2:
    "st2 = [((''logs'', VStr ''m1''), [(KStr ''dlr'', VList [demo_entry1, demo_entry2])])]"
    unfolding st1 by simp
  from s2 have s2': "map_of (load_qmsg [((''logs'', VStr ''m1''), [(KStr ''dlr'', VList [demo_entry1, demo_entry2])])]
                    ''logs'' (VStr ''m1'')) (KStr ''dlr'') = Some (VList [e1, e2])"
    unfolding st2 c .
  from d h have d': "dlr_entry demo_reactor ''2024-01-01 10:00:05'' (the (headers demo_dlr1)) = Inr ?d1"
    "dlr_entry demo_reactor ''2024-01-01 10:00:09'' (the (headers demo_dlr2)) = Inr ?d2"
    by simp_all
  from d' e s2' have "\<exists>d1 d2 e1 e2.
         dlr_entry demo_reactor ''2024-01-01 10:00:05'' (the (headers demo_dlr1)) = Inr d1
         \<and> dlr_entry demo_reactor ''2024-01-01 10:00:09'' (the (headers demo_dlr2)) = Inr d2
         \<and> sanitize (VDict d1) = Some e1 \<and> sanitize (VDict d2) = Some e2
         \<and> map_of (load_qmsg [((''logs'', VStr ''m1''), [(KStr ''dlr'', VList [demo_entry1, demo_entry2])])]
                    ''logs'' (VStr ''m1'')) (KStr ''dlr'') = Some (VList [e1, e2])"
    by blast
  with demo_dlr_run show ?thesis by blast
qed

end
